theory Spec2Isabelle
  imports Complex_Main "HOL-Library.Word"
begin

section \<open>Arrays: \<open>slice\<close> and \<open>chunkArray\<close>\<close>

text \<open>
  \<open>Array.prototype.slice(start, end)\<close> on integer arguments: a negative index counts from
  the end of the array, both indices are clamped to \<open>0 .. length\<close>, and an empty range
  gives the empty array.
\<close>

definition slice :: "'a list \<Rightarrow> int \<Rightarrow> int \<Rightarrow> 'a list" where
  "slice array start fin =
     (let len = int (length array);
          k = (if start < 0 then max (len + start) 0 else min start len);
          final = (if fin < 0 then max (len + fin) 0 else min fin len)
      in take (nat (final - k)) (drop (nat k) array))"

text \<open>
  \<^verbatim>\<open>
  function chunkArray<T>(array: T[], size: number): T[][] {
    const result: T[][] = []
    for (let i = 0; i < array.length; i += size) {
      result.push(array.slice(i, i + size))
    }
    return result
  }
  \<close>
  The same function stands in the resource builder and in the publish script. The chunk
  size is an integer-valued number. The loop does not end when the size is not positive and
  the array is not empty, so the loop is a partial function: \<open>None\<close> is "never returns".
\<close>

partial_function (option) chunkArray_loop ::
  "'a list \<Rightarrow> int \<Rightarrow> int \<Rightarrow> 'a list list \<Rightarrow> 'a list list option" where
  "chunkArray_loop array sz i result =
     (if i < int (length array)
      then chunkArray_loop array sz (i + sz) (result @ [slice array i (i + sz)])
      else Some result)"

declare chunkArray_loop.simps [code]

definition chunkArray :: "'a list \<Rightarrow> int \<Rightarrow> 'a list list option" where
  "chunkArray array sz = chunkArray_loop array sz 0 []"

section \<open>The publish script\<close>

text \<open>
  The script drives a git working copy of the output directory. Of a changed file the
  script reads only its path. A path ends with an extension when the extension is its
  last characters (\<open>String.prototype.endsWith\<close>).
\<close>

record FileStatusResult =
  path :: string

definition endsWith :: "string \<Rightarrow> string \<Rightarrow> bool" where
  "endsWith s search =
     (length search \<le> length s \<and> drop (length s - length search) s = search)"

text \<open>
  The calls on the git backend, in the order the script issues them. A commit carries its
  part number (the message is the date and \<open>Deploy resources - Part n\<close>) and the paths
  committed; the fetch, the reset and the push always name the same remote and branch.
\<close>

datatype git_cmd =
    CheckIsRepo
  | Fetch
  | Reset
  | Init
  | AddRemote
  | Checkout
  | Status
  | Add "string list"
  | Commit nat "string list"
  | Push

text \<open>
  The backend is outside the script: whether the directory is a repository root, the
  files \<open>git status\<close> reports, and whether the k-th call of the run succeeds. A call that
  fails rejects its promise, and every call is awaited at top level, so the failure ends
  the run.
\<close>

record git_env =
  isRepo :: bool
  status_files :: "FileStatusResult list"
  git_ok :: "nat \<Rightarrow> bool"

datatype outcome = NoFilesToCommit | Deployed | GitFailed

text \<open>
  Awaiting calls one after the other: the list of the calls issued so far grows with each
  call, and the first failing call ends the sequence (\<open>Inl\<close>) with that call last.
\<close>

fun git_seq :: "git_env \<Rightarrow> git_cmd list \<Rightarrow> git_cmd list \<Rightarrow> git_cmd list + git_cmd list" where
  "git_seq env [] calls = Inr calls"
| "git_seq env (c # cs) calls =
     (if git_ok env (length calls) then git_seq env cs (calls @ [c]) else Inl (calls @ [c]))"

text \<open>The loop over the audio batches: add, commit as the current part, push.\<close>

fun commit_batches ::
  "git_env \<Rightarrow> nat \<Rightarrow> FileStatusResult list list \<Rightarrow> git_cmd list \<Rightarrow> git_cmd list + nat \<times> git_cmd list"
where
  "commit_batches env part [] calls = Inr (part, calls)"
| "commit_batches env part (batch # rest) calls =
     (case git_seq env [Add (map path batch), Commit part (map path batch), Push] calls of
        Inl calls' \<Rightarrow> Inl calls'
      | Inr calls' \<Rightarrow> commit_batches env (part + 1) rest calls')"

text \<open>
  \<open>run\<close>: bring the working copy to the remote branch (or create it), read the changed
  files, commit the metadata and images as one part and the audio files in batches of 100.
  The result is the outcome with the list of git calls issued; \<open>None\<close> stands for a run that never
  returns.
\<close>

definition run :: "git_env \<Rightarrow> (outcome \<times> git_cmd list) option" where
  "run env =
     (case git_seq env [CheckIsRepo] [] of
        Inl calls \<Rightarrow> Some (GitFailed, calls)
      | Inr calls0 \<Rightarrow>
     (case (if isRepo env then git_seq env [Fetch, Reset] calls0
            else git_seq env [Init, AddRemote, Checkout] calls0) of
        Inl calls \<Rightarrow> Some (GitFailed, calls)
      | Inr calls1 \<Rightarrow>
     (case git_seq env [Status] calls1 of
        Inl calls \<Rightarrow> Some (GitFailed, calls)
      | Inr calls2 \<Rightarrow>
     (let files = status_files env;
          jsonFiles = filter (\<lambda>file. endsWith (path file) ''.json'') files;
          pngFiles = filter (\<lambda>file. endsWith (path file) ''.png'') files;
          mp3Files = filter (\<lambda>file. endsWith (path file) ''.mp3'') files
      in if length jsonFiles = 0 \<and> length pngFiles = 0 \<and> length mp3Files = 0
         then Some (NoFilesToCommit, calls2)
         else
          (case (if length jsonFiles > 0 \<or> length pngFiles > 0
                 then (case git_seq env [Add (map path (jsonFiles @ pngFiles)),
                                         Commit 1 (map path (jsonFiles @ pngFiles)),
                                         Push] calls2 of
                         Inl calls \<Rightarrow> Inl calls
                       | Inr calls \<Rightarrow> Inr (1 + 1, calls))
                 else Inr (1, calls2)) of
             Inl calls \<Rightarrow> Some (GitFailed, calls)
           | Inr (part, calls3) \<Rightarrow>
               if length mp3Files > 0
               then (case chunkArray mp3Files 100 of
                       None \<Rightarrow> None
                     | Some batches \<Rightarrow>
                         (case commit_batches env part batches calls3 of
                            Inl calls \<Rightarrow> Some (GitFailed, calls)
                          | Inr (_, calls4) \<Rightarrow> Some (Deployed, calls4)))
               else Some (Deployed, calls3))))))"

text \<open>The calls that come before the first commit when every call succeeds.\<close>

definition synced_prefix :: "git_env \<Rightarrow> git_cmd list" where
  "synced_prefix env =
     CheckIsRepo # (if isRepo env then [Fetch, Reset] else [Init, AddRemote, Checkout]) @ [Status]"

text \<open>
  A changed-file set of 250 audio files, 6 images and 4 metadata files, all of different
  names, on a fresh output directory with a backend that never fails.
\<close>

definition numbered :: "string \<Rightarrow> string \<Rightarrow> nat \<Rightarrow> FileStatusResult" where
  "numbered dir ext k = \<lparr>path = dir @ replicate k CHR ''i'' @ ext\<rparr>"

definition demo_files :: "FileStatusResult list" where
  "demo_files =
     map (numbered ''mark/m'' ''.png'') [0..<6]
     @ map (numbered ''bgm/t'' ''.mp3'') [0..<250]
     @ map (numbered ''data'' ''.json'') [0..<4]"

definition demo_git :: git_env where
  "demo_git = \<lparr>isRepo = False, status_files = demo_files, git_ok = (\<lambda>k. True)\<rparr>"

section \<open>The resource builder: data\<close>

text \<open>A catalog entry, as the remote catalog gives it, and the item built from it.\<close>

record BgmMetadata =
  albumArtist :: string
  artist :: string
  title :: string
  year :: string

record BgmSource =
  client :: string
  date :: string
  structure' :: string
  version :: string

record MapleBgmItem =
  description :: string
  filename :: string
  mark :: string
  metadata :: BgmMetadata
  source :: BgmSource
  youtube :: string

text \<open>
  A JavaScript number: a finite value, or one of the three special values. The finite
  values are taken as reals, the rounding of doubles left aside. A number is falsy when it
  is zero or \<open>NaN\<close>.
\<close>

datatype number = Num real | NaN | Infinity | NegInfinity

fun truthy :: "number \<Rightarrow> bool" where
  "truthy (Num x) = (x \<noteq> 0)"
| "truthy NaN = False"
| "truthy Infinity = True"
| "truthy NegInfinity = True"

fun non_negative :: "number \<Rightarrow> bool" where
  "non_negative (Num x) = (0 \<le> x)"
| "non_negative NaN = False"
| "non_negative Infinity = True"
| "non_negative NegInfinity = False"

text \<open>
  A value as the probe library hands it over, and as the field \<open>duration\<close> holds it at run
  time. The library reads the probe's output line by line: the text of a field becomes a
  number when it is an unsigned decimal, and is handed over as a string otherwise (\<open>N/A\<close>
  for a duration that is not known). A string is falsy when it is empty.
\<close>

datatype js_value = JNumber number | JString string

fun truthy_value :: "js_value \<Rightarrow> bool" where
  "truthy_value (JNumber n) = truthy n"
| "truthy_value (JString s) = (s \<noteq> [])"

fun is_number :: "js_value \<Rightarrow> bool" where
  "is_number (JNumber _) = True"
| "is_number (JString _) = False"

fun non_negative_number :: "js_value \<Rightarrow> bool" where
  "non_negative_number (JNumber n) = non_negative n"
| "non_negative_number (JString _) = False"

record OutputDataItem =
  title :: string
  cover :: string
  duration :: js_value
  src :: string
  data :: MapleBgmItem

datatype log_type = TypeBgm | TypeMark

record ErrorLog =
  type :: log_type
  message :: string

type_synonym bytes = "8 word list"

text \<open>
  The files the builder writes, all below the output directory, and what it does to the
  world outside, in the order it does it.
\<close>

datatype out_file = MarkFile string | BgmFile string | ErrorLogFile int | DataJson

datatype event =
    GetCatalog
  | GetMark string
  | SaveBgm string string
  | Ffprobe string
  | ReadFile out_file
  | WriteFile out_file

datatype settled = Fulfilled | Rejected string

datatype fatal = CatalogUnavailable string | ReadError string | RangeError | WriteError string

record manifest =
  bgms :: "OutputDataItem list"
  marks :: "string \<rightharpoonup> string"
  builtAt :: int

text \<open>
  The world outside the builder. The scan of the two asset directories gives the file
  names found. The catalog request gives the catalog or fails. The requests, probes and
  file operations made for an item are looked up by the position of the item in
  \<open>outputData\<close>, so that two items of the same file name may meet different answers:
  the image request and the write of the image, the download and conversion of the track,
  the probe (a failure, or the duration of the format as the library hands it over, which
  may be undefined), the read of the image. \<open>probe_order\<close> is the order in which the probes
  of a batch call back. \<open>deflateSync\<close> is the compression; \<open>max_arguments\<close> is the greatest number of
  arguments the engine accepts in one call (the compressed bytes are spread into the
  arguments of \<open>String.fromCharCode\<close>). Then the two writes at the end of the run and the
  two readings of the clock.
\<close>

record env =
  glob_marks :: "string list"
  glob_bgms :: "string list"
  ofetch_catalog :: "string + MapleBgmItem list"
  ofetch_mark :: "nat \<Rightarrow> string + bytes"
  writeFile_mark :: "nat \<Rightarrow> string option"
  ytdl_save :: "nat \<Rightarrow> string option"
  ffprobe :: "nat \<Rightarrow> string + js_value option"
  probe_order :: "nat list \<Rightarrow> nat list"
  readFileSync :: "nat \<Rightarrow> string + bytes"
  deflateSync :: "bytes \<Rightarrow> bytes"
  max_arguments :: nat
  writeFile_errorLog :: "string option"
  writeFile_data :: "string option"
  now_errorLog :: int
  now_built :: int

text \<open>
  The state of a run: the two global sets of file names, the item objects (the array
  \<open>outputData\<close> refers to them in this order, and so do the arrays filtered and chunked
  from it: an item is named by its position, and a change to an item is seen through every
  array), the error list, and the events so far.
\<close>

record state =
  downloadedMarks :: "string set"
  downloadedBgms :: "string set"
  items :: "OutputDataItem list"
  errorLogs :: "ErrorLog list"
  events :: "event list"

definition outputData :: "state \<Rightarrow> nat list" where
  "outputData st = [0..<length (items st)]"

section \<open>The resource builder: operations\<close>

definition prepareDirs :: "env \<Rightarrow> state" where
  "prepareDirs env =
     \<lparr>downloadedMarks = set (glob_marks env),
      downloadedBgms = set (glob_bgms env),
      items = [],
      errorLogs = [],
      events = []\<rparr>"

definition getMarkFilename :: "OutputDataItem \<Rightarrow> string" where
  "getMarkFilename item = mark (data item) @ ''.png''"

definition isMarkDownloaded :: "state \<Rightarrow> OutputDataItem \<Rightarrow> bool" where
  "isMarkDownloaded st item = (getMarkFilename item \<in> downloadedMarks st)"

definition getBgmFilename :: "OutputDataItem \<Rightarrow> string" where
  "getBgmFilename item = filename (data item) @ ''.mp3''"

definition isBgmDownloaded :: "state \<Rightarrow> OutputDataItem \<Rightarrow> bool" where
  "isBgmDownloaded st item = (getBgmFilename item \<in> downloadedBgms st)"

text \<open>
  \<open>downloadMark\<close>: request the image, write it, record its name. The promise rejects when
  the request or the write fails; the name is recorded only after both.
\<close>

definition downloadMark :: "env \<Rightarrow> nat \<Rightarrow> state \<Rightarrow> settled \<times> state" where
  "downloadMark env r st =
     (let markFilename = getMarkFilename (items st ! r);
          st1 = st\<lparr>events := events st @ [GetMark markFilename]\<rparr>
      in case ofetch_mark env r of
           Inl reason \<Rightarrow> (Rejected reason, st1)
         | Inr response \<Rightarrow>
             (let st2 = st1\<lparr>events := events st1 @ [WriteFile (MarkFile markFilename)]\<rparr>
              in case writeFile_mark env r of
                   Some reason \<Rightarrow> (Rejected reason, st2)
                 | None \<Rightarrow>
                     (Fulfilled,
                      st2\<lparr>downloadedMarks := insert markFilename (downloadedMarks st2)\<rparr>)))"

text \<open>
  \<open>downloadBgm\<close>: wait, stream the track from the video platform into the converter, and
  record the file name when the converter ends. An error of the stream or of the converter
  rejects the promise.
\<close>

definition downloadBgm :: "env \<Rightarrow> nat \<Rightarrow> state \<Rightarrow> settled \<times> state" where
  "downloadBgm env r st =
     (let bgmFilename = getBgmFilename (items st ! r);
          bgmYoutubeId = youtube (data (items st ! r));
          st1 = st\<lparr>events := events st @ [SaveBgm bgmYoutubeId bgmFilename]\<rparr>
      in case ytdl_save env r of
           Some reason \<Rightarrow> (Rejected reason, st1)
         | None \<Rightarrow> (Fulfilled, st1\<lparr>downloadedBgms := insert bgmFilename (downloadedBgms st1)\<rparr>))"

text \<open>
  \<open>getBgmDuration\<close> starts the probe of the track when it is called; the promise it returns
  settles when the probe calls back: it rejects with the error of the probe, or resolves
  with \<open>metadata.format.duration || 0\<close>, the value of the library as it is when it is
  truthy.
\<close>

definition start_probe :: "state \<Rightarrow> nat \<Rightarrow> state" where
  "start_probe st r = st\<lparr>events := events st @ [Ffprobe (getBgmFilename (items st ! r))]\<rparr>"

definition getBgmDuration :: "env \<Rightarrow> nat \<Rightarrow> string + js_value" where
  "getBgmDuration env r =
     (case ffprobe env r of
        Inl err \<Rightarrow> Inl err
      | Inr None \<Rightarrow> Inr (JNumber (Num 0))
      | Inr (Some d) \<Rightarrow> Inr (if truthy_value d then d else JNumber (Num 0)))"

subsection \<open>The catalog\<close>

definition to_output :: "MapleBgmItem \<Rightarrow> OutputDataItem" where
  "to_output item =
     \<lparr>title = BgmMetadata.title (metadata item),
      cover = ''/mark/'' @ mark item @ ''.png'',
      duration = JNumber (Num 0),
      src = ''/bgm/'' @ filename item @ ''.mp3'',
      data = item\<rparr>"

text \<open>An entry is kept when its \<open>youtube\<close> string is truthy, that is, not empty.\<close>

definition project :: "MapleBgmItem list \<Rightarrow> OutputDataItem list" where
  "project catalog = map to_output (filter (\<lambda>item. youtube item \<noteq> []) catalog)"

subsection \<open>Stage 1: download\<close>

text \<open>
  The list of items to download is computed once, before the loop. The body of the loop
  starts both downloads of the item, waits until both have settled, and then records the
  failure of the image and the failure of the track, in this order. The two downloads run
  interleaved; the events of the image are listed first.
\<close>

definition toDownloadList :: "state \<Rightarrow> nat list" where
  "toDownloadList st =
     filter (\<lambda>i. \<not> isMarkDownloaded st (items st ! i) \<or> \<not> isBgmDownloaded st (items st ! i))
       (outputData st)"

definition download_item :: "env \<Rightarrow> state \<Rightarrow> nat \<Rightarrow> state" where
  "download_item env st r =
     (let (markResult, st1) = downloadMark env r st;
          (bgmResult, st2) = downloadBgm env r st1;
          st3 = (case markResult of
                   Rejected reason \<Rightarrow>
                     st2\<lparr>errorLogs := errorLogs st2 @
                       [\<lparr>type = TypeMark,
                         message = ''Failed to download mark for '' @ mark (data (items st2 ! r))
                                   @ '': '' @ reason\<rparr>]\<rparr>
                 | Fulfilled \<Rightarrow> st2)
      in (case bgmResult of
            Rejected reason \<Rightarrow>
              st3\<lparr>errorLogs := errorLogs st3 @
                [\<lparr>type = TypeBgm,
                  message = ''Failed to download BGM for '' @ mark (data (items st3 ! r))
                            @ '': '' @ reason\<rparr>]\<rparr>
          | Fulfilled \<Rightarrow> st3))"

definition download_stage :: "env \<Rightarrow> state \<Rightarrow> state" where
  "download_stage env st = foldl (download_item env) st (toDownloadList st)"

subsection \<open>Stage 2: durations\<close>

text \<open>
  The items are probed in batches of 50, a batch after the other. \<open>map\<close> calls the callbacks
  of a batch in the order of the items, and each starts its probe at once. A callback goes
  on when its probe calls back: it writes the duration of its own item, or it records the
  failure and writes 0. The probes call back in an order of their own, which is some
  permutation of the batch; an answer of the environment that is no permutation of the
  batch is not taken. The next batch starts when every callback of the batch has ended.
\<close>

definition completion_order :: "env \<Rightarrow> nat list \<Rightarrow> nat list" where
  "completion_order env batch =
     (if sort (probe_order env batch) = sort batch then probe_order env batch else batch)"

definition enrich_item :: "env \<Rightarrow> state \<Rightarrow> nat \<Rightarrow> state" where
  "enrich_item env st r =
     (case getBgmDuration env r of
        Inr d \<Rightarrow> st\<lparr>items := (items st)[r := (items st ! r)\<lparr>duration := d\<rparr>]\<rparr>
      | Inl error \<Rightarrow>
          st\<lparr>errorLogs := errorLogs st @
                 [\<lparr>type = TypeBgm,
                   message = ''Failed to get duration for '' @ filename (data (items st ! r))
                             @ '': '' @ error\<rparr>],
              items := (items st)[r := (items st ! r)\<lparr>duration := JNumber (Num 0)\<rparr>]\<rparr>)"

definition enrich_batch :: "env \<Rightarrow> state \<Rightarrow> nat list \<Rightarrow> state" where
  "enrich_batch env st batch =
     foldl (enrich_item env) (foldl start_probe st batch) (completion_order env batch)"

definition duration_stage :: "env \<Rightarrow> state \<Rightarrow> state option" where
  "duration_stage env st =
     (case chunkArray (outputData st) 50 of
        None \<Rightarrow> None
      | Some batches \<Rightarrow> Some (foldl (enrich_batch env) st batches))"

subsection \<open>Stage 3: the images, compressed\<close>

text \<open>
  The callbacks of a batch have no suspension point: each runs to its end, or to its
  exception, when \<open>map\<close> calls it, so every item of the batch is tried, in order. The batch
  then fails with the first exception, and the exception leaves \<open>main\<close>: the later batches
  are not started.
\<close>

definition fromCharCode :: "bytes \<Rightarrow> string" where
  "fromCharCode codes = map (\<lambda>b. char_of (unat b)) codes"

definition encode_item ::
  "env \<Rightarrow> state \<times> (string \<rightharpoonup> string) \<times> fatal list \<Rightarrow> nat
     \<Rightarrow> state \<times> (string \<rightharpoonup> string) \<times> fatal list" where
  "encode_item env acc r =
     (case acc of (st, marks', thrown) \<Rightarrow>
        (let markFilename = getMarkFilename (items st ! r);
             st1 = st\<lparr>events := events st @ [ReadFile (MarkFile markFilename)]\<rparr>
         in case readFileSync env r of
              Inl err \<Rightarrow> (st1, marks', thrown @ [ReadError err])
            | Inr buf \<Rightarrow>
                (let compressed = deflateSync env buf
                 in if length compressed > max_arguments env
                    then (st1, marks', thrown @ [RangeError])
                    else (st1, marks'(mark (data (items st ! r)) \<mapsto> fromCharCode compressed),
                          thrown))))"

fun encode_batches ::
  "env \<Rightarrow> nat list list \<Rightarrow> state \<Rightarrow> (string \<rightharpoonup> string) \<Rightarrow> state \<times> (fatal + (string \<rightharpoonup> string))"
where
  "encode_batches env [] st marks' = (st, Inr marks')"
| "encode_batches env (batch # rest) st marks' =
     (case foldl (encode_item env) (st, marks', []) batch of
        (st', marks'', []) \<Rightarrow> encode_batches env rest st' marks''
      | (st', marks'', e # _) \<Rightarrow> (st', Inl e))"

definition encode_stage :: "env \<Rightarrow> state \<Rightarrow> (state \<times> (fatal + (string \<rightharpoonup> string))) option" where
  "encode_stage env st =
     (case chunkArray (outputData st) 50 of
        None \<Rightarrow> None
      | Some batches \<Rightarrow> Some (encode_batches env batches st Map.empty))"

subsection \<open>The two files written at the end, and \<open>main\<close>\<close>

text \<open>
  After the three stages \<open>main\<close> writes the error list to a file named after the clock, when
  the list is not empty, and then the manifest. Both writes are awaited: a write that fails
  ends the run there.
\<close>

definition write_outputs ::
  "env \<Rightarrow> state \<Rightarrow> (string \<rightharpoonup> string) \<Rightarrow> (fatal + manifest) \<times> state" where
  "write_outputs env st marks' =
     (case (if length (errorLogs st) > 0
            then (let st1 = st\<lparr>events := events st @ [WriteFile (ErrorLogFile (now_errorLog env))]\<rparr>
                  in case writeFile_errorLog env of
                       Some reason \<Rightarrow> Inl (WriteError reason, st1)
                     | None \<Rightarrow> Inr st1)
            else Inr st) of
        Inl (e, st') \<Rightarrow> (Inl e, st')
      | Inr st1 \<Rightarrow>
          (let st2 = st1\<lparr>events := events st1 @ [WriteFile DataJson]\<rparr>
           in case writeFile_data env of
                Some reason \<Rightarrow> (Inl (WriteError reason), st2)
              | None \<Rightarrow>
                  (Inr \<lparr>bgms = map (\<lambda>r. items st2 ! r) (outputData st2),
                        marks = marks',
                        builtAt = now_built env\<rparr>,
                   st2)))"

text \<open>
  The state when the first stage starts: the directories scanned, the catalog fetched and
  projected. Then the run up to the end of the second stage.
\<close>

definition start_state :: "env \<Rightarrow> MapleBgmItem list \<Rightarrow> state" where
  "start_state env catalog =
     (let st0 = prepareDirs env
      in st0\<lparr>events := events st0 @ [GetCatalog], items := project catalog\<rparr>)"

definition download_and_probe :: "env \<Rightarrow> MapleBgmItem list \<Rightarrow> state option" where
  "download_and_probe env catalog =
     duration_stage env (download_stage env (start_state env catalog))"

text \<open>
  \<open>main\<close>: the result is the manifest written, or the exception that ended the run, with
  the state reached; \<open>None\<close> stands for a run that never returns.
\<close>

definition main :: "env \<Rightarrow> ((fatal + manifest) \<times> state) option" where
  "main env =
     (case ofetch_catalog env of
        Inl reason \<Rightarrow>
          Some (Inl (CatalogUnavailable reason),
                (prepareDirs env)\<lparr>events := events (prepareDirs env) @ [GetCatalog]\<rparr>)
      | Inr catalog \<Rightarrow>
          (case download_and_probe env catalog of
             None \<Rightarrow> None
           | Some st \<Rightarrow>
               (case encode_stage env st of
                  None \<Rightarrow> None
                | Some (st', Inl e) \<Rightarrow> Some (Inl e, st')
                | Some (st', Inr marks') \<Rightarrow> Some (write_outputs env st' marks'))))"

section \<open>Observations on a run\<close>

text \<open>The requests for assets among the events of a run.\<close>

fun is_fetch :: "event \<Rightarrow> bool" where
  "is_fetch (GetMark _) = True"
| "is_fetch (SaveBgm _ _) = True"
| "is_fetch _ = False"

definition fetches :: "state \<Rightarrow> event list" where
  "fetches st = filter is_fetch (events st)"

text \<open>The two requests the loop body makes for an item.\<close>

definition fetch_pair :: "state \<Rightarrow> nat \<Rightarrow> event list" where
  "fetch_pair st r =
     [GetMark (getMarkFilename (items st ! r)),
      SaveBgm (youtube (data (items st ! r))) (getBgmFilename (items st ! r))]"

text \<open>
  How the two downloads of the item at position \<open>r\<close> settle, and the error records the
  loop body appends for the item.
\<close>

definition mark_settled :: "env \<Rightarrow> nat \<Rightarrow> settled" where
  "mark_settled env r =
     (case ofetch_mark env r of
        Inl reason \<Rightarrow> Rejected reason
      | Inr response \<Rightarrow>
          (case writeFile_mark env r of Some reason \<Rightarrow> Rejected reason | None \<Rightarrow> Fulfilled))"

definition bgm_settled :: "env \<Rightarrow> nat \<Rightarrow> settled" where
  "bgm_settled env r =
     (case ytdl_save env r of Some reason \<Rightarrow> Rejected reason | None \<Rightarrow> Fulfilled)"

definition item_errors :: "env \<Rightarrow> state \<Rightarrow> nat \<Rightarrow> ErrorLog list" where
  "item_errors env st r =
     (case mark_settled env r of
        Rejected reason \<Rightarrow>
          [\<lparr>type = TypeMark,
            message = ''Failed to download mark for '' @ mark (data (items st ! r))
                      @ '': '' @ reason\<rparr>]
      | Fulfilled \<Rightarrow> [])
     @ (case bgm_settled env r of
          Rejected reason \<Rightarrow>
            [\<lparr>type = TypeBgm,
              message = ''Failed to download BGM for '' @ mark (data (items st ! r))
                        @ '': '' @ reason\<rparr>]
        | Fulfilled \<Rightarrow> [])"

text \<open>The writes of the error log and of the manifest among the events of a run.\<close>

fun is_final_write :: "event \<Rightarrow> bool" where
  "is_final_write (WriteFile (ErrorLogFile _)) = True"
| "is_final_write (WriteFile DataJson) = True"
| "is_final_write _ = False"

definition final_writes :: "state \<Rightarrow> event list" where
  "final_writes st = filter is_final_write (events st)"

text \<open>The durations of the items, in the order of \<open>outputData\<close>.\<close>

definition durations :: "state \<Rightarrow> js_value list" where
  "durations st = map duration (items st)"

text \<open>The exceptions that the third stage can end with.\<close>

fun is_encode_error :: "fatal \<Rightarrow> bool" where
  "is_encode_error (ReadError _) = True"
| "is_encode_error RangeError = True"
| "is_encode_error _ = False"

text \<open>What the second stage leaves as the duration of the item at position \<open>r\<close>.\<close>

definition probed :: "env \<Rightarrow> nat \<Rightarrow> js_value" where
  "probed env r =
     (case ffprobe env r of
        Inl err \<Rightarrow> JNumber (Num 0)
      | Inr None \<Rightarrow> JNumber (Num 0)
      | Inr (Some d) \<Rightarrow> if truthy_value d then d else JNumber (Num 0))"

section \<open>A small catalog and its runs\<close>

text \<open>
  Three entries that share one image; the second has no source on the video platform.
  Locally the image and the first track are present. In the run \<open>demo_env\<close> the image is
  fetched again, the download of the third track fails, and so does its probe; the probes
  of a batch call back last to first.
\<close>

definition entry :: "string \<Rightarrow> string \<Rightarrow> string \<Rightarrow> MapleBgmItem" where
  "entry name picture video =
     \<lparr>description = [], filename = name, mark = picture,
      metadata = \<lparr>albumArtist = ''W'', artist = ''W'', title = name, year = ''2003''\<rparr>,
      source = \<lparr>client = ''KMS'', date = ''2003'', structure' = ''Bgm'', version = ''1''\<rparr>,
      youtube = video\<rparr>"

definition demo_catalog :: "MapleBgmItem list" where
  "demo_catalog = [entry ''Title'' ''maple'' ''abc'', entry ''Note'' ''maple'' [],
                   entry ''Floral'' ''maple'' ''xyz'']"

definition demo_env :: env where
  "demo_env =
     \<lparr>glob_marks = [''maple.png''],
      glob_bgms = [''Title.mp3''],
      ofetch_catalog = Inr demo_catalog,
      ofetch_mark = (\<lambda>r. Inr [137, 80, 78, 71]),
      writeFile_mark = (\<lambda>r. None),
      ytdl_save = (\<lambda>r. Some ''unavailable''),
      ffprobe = (\<lambda>r. if r = 0 then Inr (Some (JNumber (Num 93.5))) else Inl ''ENOENT''),
      probe_order = rev,
      readFileSync = (\<lambda>r. Inr [137, 80, 78, 71]),
      deflateSync = (\<lambda>buf. buf),
      max_arguments = 65535,
      writeFile_errorLog = None,
      writeFile_data = None,
      now_errorLog = 1000,
      now_built = 1001\<rparr>"

definition demo_start :: state where
  "demo_start = start_state demo_env demo_catalog"

text \<open>The same run on a disk that refuses the error log.\<close>

definition log_refused_env :: env where
  "log_refused_env = demo_env\<lparr>writeFile_errorLog := Some ''EACCES''\<rparr>"

text \<open>A run in which every download succeeds, and the run that follows it.\<close>

definition online_env :: env where
  "online_env = demo_env\<lparr>ytdl_save := (\<lambda>r. None)\<rparr>"

definition second_env :: env where
  "second_env = online_env\<lparr>glob_bgms := [''Floral.mp3'', ''Title.mp3'']\<rparr>"

text \<open>A run in which the image host is down while the video platform answers.\<close>

definition no_image_env :: env where
  "no_image_env = online_env\<lparr>ofetch_mark := (\<lambda>r. Inl ''503'')\<rparr>"

text \<open>
  A run in which the probe knows the duration of no track: the field reads \<open>N/A\<close> in the
  probe's output, and the library hands the text over.
\<close>

definition unknown_duration_env :: env where
  "unknown_duration_env = online_env\<lparr>ffprobe := (\<lambda>r. Inr (Some (JString ''N/A'')))\<rparr>"

text \<open>A run in which the image of the third entry cannot be read.\<close>

definition unreadable_env :: env where
  "unreadable_env = demo_env\<lparr>readFileSync := (\<lambda>r. if r = 1 then Inl ''ENOENT''
                                                    else Inr [137, 80, 78, 71])\<rparr>"

text \<open>The states in which the download stage of these runs starts.\<close>

definition online_start :: state where
  "online_start = start_state online_env demo_catalog"

definition second_start :: state where
  "second_start = start_state second_env demo_catalog"

definition no_image_start :: state where
  "no_image_start = start_state no_image_env demo_catalog"

definition unknown_duration_start :: state where
  "unknown_duration_start = start_state unknown_duration_env demo_catalog"

section \<open>Properties of \<open>chunkArray\<close>\<close>

lemma slice_chunk:
  assumes "0 \<le> i" and "0 < sz"
  shows "slice array i (i + sz) = take (nat sz) (drop (nat i) array)"
proof -
  let ?len = "int (length array)"
  consider (inside) "i + sz \<le> ?len" | (tail) "i \<le> ?len" "?len < i + sz" | (beyond) "?len < i"
    by linarith
  then show ?thesis
  proof cases
    case inside
    with assms have "min (i + sz) ?len = i + sz" "min i ?len = i"
      by simp_all
    with assms show ?thesis
      by (simp add: slice_def Let_def)
  next
    case tail
    with assms have m: "min (i + sz) ?len = ?len" "min i ?len = i"
      by simp_all
    from tail assms have "length (drop (nat i) array) \<le> nat sz"
      by simp
    moreover from tail assms have "length (drop (nat i) array) \<le> nat (?len - i)"
      by simp
    ultimately show ?thesis using assms
      by (simp add: slice_def Let_def m)
  next
    case beyond
    with assms have "drop (nat i) array = []" "drop (nat (min i ?len)) array = []"
      by simp_all
    with assms show ?thesis
      by (simp add: slice_def Let_def)
  qed
qed

lemma chunkArray_loop_spec:
  assumes "0 < sz" and "0 \<le> i"
  shows "\<exists>cs. chunkArray_loop array sz i result = Some (result @ cs)
            \<and> concat cs = drop (nat i) array
            \<and> [] \<notin> set cs
            \<and> (\<forall>k. Suc k < length cs \<longrightarrow> length (cs ! k) = nat sz)"
  using assms(2)
proof (induction "length array - nat i" arbitrary: i result rule: less_induct)
  case less
  show ?case
  proof (cases "i < int (length array)")
    case False
    with less.prems have "drop (nat i) array = []" by simp
    with False show ?thesis
      by (subst chunkArray_loop.simps) simp
  next
    case True
    define c where "c = take (nat sz) (drop (nat i) array)"
    have sl: "slice array i (i + sz) = c"
      using less.prems assms(1) by (simp add: slice_chunk c_def)
    from True less.prems have ne: "c \<noteq> []"
      using assms(1) by (simp add: c_def)
    have "length array - nat (i + sz) < length array - nat i"
      using True less.prems assms(1) by linarith
    moreover have "0 \<le> i + sz" using less.prems assms(1) by simp
    ultimately obtain cs where
      run: "chunkArray_loop array sz (i + sz) (result @ [c]) = Some ((result @ [c]) @ cs)" and
      cat: "concat cs = drop (nat (i + sz)) array" and
      nonempty: "[] \<notin> set cs" and
      full: "\<forall>k. Suc k < length cs \<longrightarrow> length (cs ! k) = nat sz"
      using less.hyps by blast
    have nat_sum: "nat (i + sz) = nat sz + nat i"
      using less.prems assms(1) by simp
    have cat': "concat (c # cs) = drop (nat i) array"
      by (simp add: cat c_def nat_sum flip: drop_drop)
    have full': "length ((c # cs) ! k) = nat sz" if "Suc k < length (c # cs)" for k
    proof (cases k)
      case (Suc j)
      with that full show ?thesis by simp
    next
      case 0
      with that have "cs \<noteq> []" by auto
      with nonempty have "concat cs \<noteq> []"
        by (cases cs) auto
      with cat have "nat (i + sz) < length array" by simp
      with 0 show ?thesis by (simp add: c_def nat_sum)
    qed
    have "chunkArray_loop array sz i result = Some (result @ c # cs)"
      using True run sl by (subst chunkArray_loop.simps) simp
    with cat' ne nonempty full' show ?thesis
      by (intro exI [of _ "c # cs"]) auto
  qed
qed

text \<open>
  Claim C10. For every list and every positive chunk size, \<open>chunkArray\<close> returns; the
  chunks concatenated are the list itself, no chunk is empty, and every chunk but the last
  has exactly the chunk size as its length.
\<close>

theorem chunkArray_partition:
  assumes "0 < n"
  shows "\<exists>cs. chunkArray xs n = Some cs
            \<and> concat cs = xs
            \<and> (\<forall>c \<in> set cs. c \<noteq> [])
            \<and> (\<forall>k. Suc k < length cs \<longrightarrow> length (cs ! k) = nat n)"
proof -
  obtain cs where "chunkArray_loop xs n 0 [] = Some ([] @ cs)" and "concat cs = drop (nat 0) xs"
    and "[] \<notin> set cs" and "\<forall>k. Suc k < length cs \<longrightarrow> length (cs ! k) = nat n"
    using chunkArray_loop_spec [OF assms, of 0 xs "[]"] by auto
  then show ?thesis
    by (intro exI [of _ cs]) (auto simp: chunkArray_def)
qed

theorem chunkArray_partition_witness:
  "(0::int) < 3
   \<and> chunkArray [1, 2, 3, 4, 5, 6, 7 :: nat] 3 = Some [[1, 2, 3], [4, 5, 6], [7]]
   \<and> (\<exists>cs. chunkArray [1, 2, 3, 4, 5, 6, 7 :: nat] 3 = Some cs
        \<and> concat cs = [1, 2, 3, 4, 5, 6, 7]
        \<and> (\<forall>c \<in> set cs. c \<noteq> [])
        \<and> (\<forall>k. Suc k < length cs \<longrightarrow> length (cs ! k) = nat 3))"
proof -
  have pos: "(0::int) < 3" by simp
  have run: "chunkArray [1, 2, 3, 4, 5, 6, 7 :: nat] 3 = Some [[1, 2, 3], [4, 5, 6], [7]]"
    by (simp add: chunkArray_def chunkArray_loop.simps slice_def)
  from pos run chunkArray_partition [OF pos, of "[1, 2, 3, 4, 5, 6, 7 :: nat]"]
  show ?thesis by blast
qed

section \<open>The publish script: batches and their order\<close>

lemma git_seq_ok: "\<forall>k. git_ok env k \<Longrightarrow> git_seq env cs calls = Inr (calls @ cs)"
  by (induction cs arbitrary: calls) auto

lemma run_all_kinds:
  assumes ok: "\<forall>k. git_ok env k"
    and js: "jsonFiles = filter (\<lambda>file. endsWith (path file) ''.json'') (status_files env)"
    and ps: "pngFiles = filter (\<lambda>file. endsWith (path file) ''.png'') (status_files env)"
    and ms: "mp3Files = filter (\<lambda>file. endsWith (path file) ''.mp3'') (status_files env)"
    and other: "jsonFiles @ pngFiles \<noteq> []"
    and audio: "mp3Files \<noteq> []"
    and chunks: "chunkArray mp3Files 100 = Some [b1, b2, b3]"
  shows "run env = Some (Deployed,
          synced_prefix env
          @ [Add (map path (jsonFiles @ pngFiles)), Commit 1 (map path (jsonFiles @ pngFiles)), Push,
             Add (map path b1), Commit 2 (map path b1), Push,
             Add (map path b2), Commit 3 (map path b2), Push,
             Add (map path b3), Commit 4 (map path b3), Push])"
proof -
  have first: "git_seq env [CheckIsRepo] [] = Inr [CheckIsRepo]"
    by (simp add: git_seq_ok [OF ok] del: git_seq.simps)
  have sync: "(if isRepo env then git_seq env [Fetch, Reset] [CheckIsRepo]
               else git_seq env [Init, AddRemote, Checkout] [CheckIsRepo])
              = Inr (CheckIsRepo # (if isRepo env then [Fetch, Reset] else [Init, AddRemote, Checkout]))"
    by (simp add: git_seq_ok [OF ok] del: git_seq.simps)
  have status: "git_seq env [Status] (CheckIsRepo # (if isRepo env then [Fetch, Reset] else [Init, AddRemote, Checkout]))
                 = Inr (synced_prefix env)"
    by (simp add: git_seq_ok [OF ok] synced_prefix_def del: git_seq.simps)
  have loop: "commit_batches env part [b1, b2, b3] calls
               = Inr (part + 3, calls @ [Add (map path b1), Commit part (map path b1), Push,
             Add (map path b2), Commit (part + 1) (map path b2), Push,
             Add (map path b3), Commit (part + 2) (map path b3), Push])" for calls part
    by (simp add: git_seq_ok [OF ok] del: git_seq.simps)
  from other audio show ?thesis
    unfolding run_def Let_def js [symmetric] ps [symmetric] ms [symmetric] first sum.case sync status
    by (simp add: git_seq_ok [OF ok] chunks loop del: git_seq.simps commit_batches.simps)
qed

lemma chunkArray_250:
  assumes "length xs = 250"
  shows "chunkArray xs 100 = Some [take 100 xs, take 100 (drop 100 xs), drop 200 xs]"
  using assms
  by (simp add: chunkArray_def chunkArray_loop.simps slice_def)

lemma three_parts:
  "map f (take 100 xs) @ map f (take 100 (drop 100 xs)) @ map f (drop 200 xs) = map f xs"
proof -
  have "take 100 xs @ take 100 (drop 100 xs) @ drop 100 (drop 100 xs) = xs"
    by (simp only: append_take_drop_id)
  then have "take 100 xs @ take 100 (drop 100 xs) @ drop 200 xs = xs"
    by simp
  then have "map f (take 100 xs @ take 100 (drop 100 xs) @ drop 200 xs) = map f xs"
    by (simp only:)
  then show ?thesis by simp
qed

lemma endsWith_own_extension: "endsWith (path (numbered dir ext k)) ext"
  by (simp add: endsWith_def numbered_def)

lemma endsWith_last: "endsWith s x \<Longrightarrow> x \<noteq> [] \<Longrightarrow> last s = last x"
  by (metis endsWith_def last_drop length_greater_0_conv diff_less less_le_trans
        drop_eq_Nil leD linorder_le_cases)

lemma endsWith_other_extension:
  "ext \<noteq> [] \<Longrightarrow> x \<noteq> [] \<Longrightarrow> last ext \<noteq> last x \<Longrightarrow> \<not> endsWith (path (numbered dir ext k)) x"
  using endsWith_last [of "path (numbered dir ext k)" x]
  by (auto simp: numbered_def)

lemma demo_files_by_kind:
  "filter (\<lambda>file. endsWith (path file) ''.mp3'') demo_files = map (numbered ''bgm/t'' ''.mp3'') [0..<250]"
  "filter (\<lambda>file. endsWith (path file) ''.png'') demo_files = map (numbered ''mark/m'' ''.png'') [0..<6]"
  "filter (\<lambda>file. endsWith (path file) ''.json'') demo_files = map (numbered ''data'' ''.json'') [0..<4]"
  by (simp_all add: demo_files_def filter_map comp_def endsWith_own_extension
        endsWith_other_extension del: upt_Suc)

text \<open>
  Claim C4. When the changed files are 250 audio files and 10 metadata and image files,
  and no git call fails, the script commits and pushes four parts in this order: part 1
  with the 10 metadata and image files, then parts 2, 3 and 4 with the first 100, the next
  100 and the last 50 audio files.
\<close>

theorem run_batches_250_10:
  assumes ok: "\<forall>k. git_ok env k"
    and audio: "length (filter (\<lambda>file. endsWith (path file) ''.mp3'') (status_files env)) = 250"
    and other: "length (filter (\<lambda>file. endsWith (path file) ''.json'') (status_files env))
                + length (filter (\<lambda>file. endsWith (path file) ''.png'') (status_files env)) = 10"
  shows "\<exists>b0 b1 b2 b3.
           run env = Some (Deployed,
             synced_prefix env
             @ [Add b0, Commit 1 b0, Push,
                Add b1, Commit 2 b1, Push,
                Add b2, Commit 3 b2, Push,
                Add b3, Commit 4 b3, Push])
         \<and> length b0 = 10 \<and> length b1 = 100 \<and> length b2 = 100 \<and> length b3 = 50
         \<and> b0 = map path (filter (\<lambda>file. endsWith (path file) ''.json'') (status_files env)
                           @ filter (\<lambda>file. endsWith (path file) ''.png'') (status_files env))
         \<and> b1 @ b2 @ b3 = map path (filter (\<lambda>file. endsWith (path file) ''.mp3'') (status_files env))"
proof -
  define jsonFiles where "jsonFiles = filter (\<lambda>file. endsWith (path file) ''.json'') (status_files env)"
  define pngFiles where "pngFiles = filter (\<lambda>file. endsWith (path file) ''.png'') (status_files env)"
  define mp3Files where "mp3Files = filter (\<lambda>file. endsWith (path file) ''.mp3'') (status_files env)"
  have len: "length mp3Files = 250" "length jsonFiles + length pngFiles = 10"
    using audio other by (simp_all add: jsonFiles_def pngFiles_def mp3Files_def)
  then have some: "jsonFiles @ pngFiles \<noteq> []" "mp3Files \<noteq> []"
    by auto
  have chunks: "chunkArray mp3Files 100
                  = Some [take 100 mp3Files, take 100 (drop 100 mp3Files), drop 200 mp3Files]"
    using len(1) by (rule chunkArray_250)
  note run_all_kinds [OF ok jsonFiles_def pngFiles_def mp3Files_def some chunks]
  moreover note three_parts [of path mp3Files]
  moreover have "length (map path (jsonFiles @ pngFiles)) = 10"
    "length (map path (take 100 mp3Files)) = 100"
    "length (map path (take 100 (drop 100 mp3Files))) = 100"
    "length (map path (drop 200 mp3Files)) = 50"
    using len by simp_all
  ultimately show ?thesis
    unfolding jsonFiles_def pngFiles_def mp3Files_def
    by blast
qed

theorem run_batches_250_10_witness:
  "(\<forall>k. git_ok demo_git k)
   \<and> length (filter (\<lambda>file. endsWith (path file) ''.mp3'') (status_files demo_git)) = 250
   \<and> length (filter (\<lambda>file. endsWith (path file) ''.json'') (status_files demo_git))
       + length (filter (\<lambda>file. endsWith (path file) ''.png'') (status_files demo_git)) = 10
   \<and> (\<exists>b0 b1 b2 b3.
           run demo_git = Some (Deployed,
             [CheckIsRepo, Init, AddRemote, Checkout, Status,
              Add b0, Commit 1 b0, Push,
              Add b1, Commit 2 b1, Push,
              Add b2, Commit 3 b2, Push,
              Add b3, Commit 4 b3, Push])
         \<and> length b0 = 10 \<and> length b1 = 100 \<and> length b2 = 100 \<and> length b3 = 50)"
proof -
  have ok: "\<forall>k. git_ok demo_git k"
    by (simp add: demo_git_def)
  have audio: "length (filter (\<lambda>file. endsWith (path file) ''.mp3'') (status_files demo_git)) = 250"
    by (simp add: demo_git_def demo_files_by_kind)
  have other: "length (filter (\<lambda>file. endsWith (path file) ''.json'') (status_files demo_git))
       + length (filter (\<lambda>file. endsWith (path file) ''.png'') (status_files demo_git)) = 10"
    by (simp add: demo_git_def demo_files_by_kind)
  have pre: "synced_prefix demo_git = [CheckIsRepo, Init, AddRemote, Checkout, Status]"
    by (simp add: synced_prefix_def demo_git_def)
  from run_batches_250_10 [OF ok audio other] ok audio other show ?thesis
    unfolding pre by auto
qed


section \<open>The download stage\<close>

lemma downloadMark_frame:
  "items (snd (downloadMark env r st)) = items st"
  "errorLogs (snd (downloadMark env r st)) = errorLogs st"
  "downloadedBgms (snd (downloadMark env r st)) = downloadedBgms st"
  "downloadedMarks st \<subseteq> downloadedMarks (snd (downloadMark env r st))"
  "fetches (snd (downloadMark env r st)) = fetches st @ [GetMark (getMarkFilename (items st ! r))]"
  by (auto simp: downloadMark_def Let_def fetches_def split: sum.splits option.splits)

lemma downloadBgm_frame:
  "items (snd (downloadBgm env r st)) = items st"
  "errorLogs (snd (downloadBgm env r st)) = errorLogs st"
  "downloadedMarks (snd (downloadBgm env r st)) = downloadedMarks st"
  "downloadedBgms st \<subseteq> downloadedBgms (snd (downloadBgm env r st))"
  "fetches (snd (downloadBgm env r st))
     = fetches st @ [SaveBgm (youtube (data (items st ! r))) (getBgmFilename (items st ! r))]"
  by (auto simp: downloadBgm_def Let_def fetches_def split: option.splits)

lemma downloadMark_settled: "fst (downloadMark env r st) = mark_settled env r"
  by (simp add: downloadMark_def mark_settled_def Let_def split: sum.splits option.splits)

lemma downloadBgm_settled: "fst (downloadBgm env r st) = bgm_settled env r"
  by (simp add: downloadBgm_def bgm_settled_def Let_def split: option.splits)

lemma downloadBgm_fulfilled:
  "bgm_settled env r = Fulfilled
   \<Longrightarrow> getBgmFilename (items st ! r) \<in> downloadedBgms (snd (downloadBgm env r st))"
  by (auto simp: downloadBgm_def bgm_settled_def Let_def split: option.splits)

lemma download_item_eq:
  "download_item env st r
     = (snd (downloadBgm env r (snd (downloadMark env r st))))
         \<lparr>errorLogs := errorLogs st @ item_errors env st r\<rparr>"
proof -
  define st1 where "st1 = snd (downloadMark env r st)"
  define st2 where "st2 = snd (downloadBgm env r st1)"
  have dm: "downloadMark env r st = (mark_settled env r, st1)"
    by (simp add: st1_def prod_eq_iff downloadMark_settled)
  have db: "downloadBgm env r st1 = (bgm_settled env r, st2)"
    by (simp add: st2_def prod_eq_iff downloadBgm_settled)
  have f2: "items st2 = items st" "errorLogs st2 = errorLogs st"
    by (simp_all add: st1_def st2_def downloadMark_frame downloadBgm_frame)
  have same: "st2\<lparr>errorLogs := errorLogs st\<rparr> = st2"
    using f2(2) by simp
  have "download_item env st r = st2\<lparr>errorLogs := errorLogs st @ item_errors env st r\<rparr>"
  proof (cases "mark_settled env r")
    case Fulfilled
    note m = this
    show ?thesis
    proof (cases "bgm_settled env r")
      case Fulfilled
      with m show ?thesis
        by (simp add: download_item_def dm db item_errors_def same)
    next
      case (Rejected reason)
      with m show ?thesis
        by (simp add: download_item_def dm db item_errors_def f2)
    qed
  next
    case (Rejected reason)
    note m = this
    show ?thesis
    proof (cases "bgm_settled env r")
      case Fulfilled
      with m show ?thesis
        by (simp add: download_item_def dm db item_errors_def f2)
    next
      case (Rejected reason')
      with m show ?thesis
        by (simp add: download_item_def dm db item_errors_def f2)
    qed
  qed
  then show ?thesis
    by (simp add: st1_def st2_def)
qed

lemma download_item_frame:
  "items (download_item env st r) = items st"
  "downloadedMarks st \<subseteq> downloadedMarks (download_item env st r)"
  "downloadedBgms st \<subseteq> downloadedBgms (download_item env st r)"
  "fetches (download_item env st r) = fetches st @ fetch_pair st r"
  "errorLogs (download_item env st r) = errorLogs st @ item_errors env st r"
proof -
  let ?st1 = "snd (downloadMark env r st)"
  let ?st2 = "snd (downloadBgm env r ?st1)"
  note shape = download_item_eq [of env st r]
  show "items (download_item env st r) = items st"
    by (simp add: shape downloadMark_frame downloadBgm_frame)
  have "downloadedMarks st \<subseteq> downloadedMarks ?st2"
    using downloadMark_frame(4) [of st env r] by (simp add: downloadBgm_frame)
  then show "downloadedMarks st \<subseteq> downloadedMarks (download_item env st r)"
    by (simp add: shape)
  have "downloadedBgms st \<subseteq> downloadedBgms ?st2"
    using downloadBgm_frame(4) [of ?st1 env r] by (simp add: downloadMark_frame)
  then show "downloadedBgms st \<subseteq> downloadedBgms (download_item env st r)"
    by (simp add: shape)
  have "fetches ?st2 = fetches st @ fetch_pair st r"
    by (simp add: downloadBgm_frame downloadMark_frame fetch_pair_def)
  then show "fetches (download_item env st r) = fetches st @ fetch_pair st r"
    by (simp add: shape fetches_def)
  show "errorLogs (download_item env st r) = errorLogs st @ item_errors env st r"
    by (simp add: shape)
qed

lemma download_loop_frame:
  "items (foldl (download_item env) st rs) = items st"
  "downloadedMarks st \<subseteq> downloadedMarks (foldl (download_item env) st rs)"
  "downloadedBgms st \<subseteq> downloadedBgms (foldl (download_item env) st rs)"
proof (induction rs arbitrary: st)
  case Nil
  {
    case 1 show ?case by simp
  next
    case 2 show ?case by simp
  next
    case 3 show ?case by simp
  }
next
  case (Cons r rs)
  {
    case 1 show ?case by (simp add: Cons.IH(1) download_item_frame)
  next
    case 2 show ?case
      using Cons.IH(2) [of "download_item env st r"] download_item_frame(2) [of st env r]
      by auto
  next
    case 3 show ?case
      using Cons.IH(3) [of "download_item env st r"] download_item_frame(3) [of st env r]
      by auto
  }
qed

lemma download_loop_fetches:
  "fetches (foldl (download_item env) st rs) = fetches st @ concat (map (fetch_pair st) rs)"
proof (induction rs arbitrary: st)
  case Nil
  show ?case by simp
next
  case (Cons r rs)
  have same: "map (fetch_pair (download_item env st r)) rs = map (fetch_pair st) rs"
    by (simp add: fetch_pair_def download_item_frame)
  show ?case
    by (simp add: Cons.IH download_item_frame same)
qed

lemma download_loop_errors:
  "errorLogs (foldl (download_item env) st rs)
     = errorLogs st @ concat (map (item_errors env st) rs)"
proof (induction rs arbitrary: st)
  case Nil
  show ?case by simp
next
  case (Cons r rs)
  have same: "map (item_errors env (download_item env st r)) rs = map (item_errors env st) rs"
    by (simp add: item_errors_def download_item_frame cong: settled.case_cong)
  show ?case
    by (simp add: Cons.IH download_item_frame same)
qed

lemma download_loop_keeps_bgm:
  assumes "r \<in> set rs" and "bgm_settled env r = Fulfilled"
  shows "getBgmFilename (items st ! r) \<in> downloadedBgms (foldl (download_item env) st rs)"
  using assms(1)
proof (induction rs arbitrary: st)
  case Nil
  then show ?case by simp
next
  case (Cons q rs)
  show ?case
  proof (cases "q = r")
    case True
    have "getBgmFilename (items st ! r) \<in> downloadedBgms (download_item env st r)"
      using downloadBgm_fulfilled [OF assms(2), of "snd (downloadMark env r st)"]
      by (simp add: download_item_eq downloadMark_frame)
    with True show ?thesis
      using download_loop_frame(3) [of "download_item env st r" env rs] by auto
  next
    case False
    with Cons.prems have "r \<in> set rs" by simp
    from Cons.IH [OF this, of "download_item env st q"] show ?thesis
      by (simp add: download_item_frame)
  qed
qed

lemma toDownloadList_empty:
  assumes "\<forall>r < length (items st).
             getMarkFilename (items st ! r) \<in> downloadedMarks st
             \<and> getBgmFilename (items st ! r) \<in> downloadedBgms st"
  shows "toDownloadList st = []"
  using assms
  by (auto simp: toDownloadList_def outputData_def isMarkDownloaded_def isBgmDownloaded_def
        filter_empty_conv)

section \<open>Evaluating the runs of the small catalog\<close>

lemma demo_start_eval:
  "items demo_start = [to_output (entry ''Title'' ''maple'' ''abc''),
                       to_output (entry ''Floral'' ''maple'' ''xyz'')]"
  "downloadedMarks demo_start = {''maple.png''}"
  "downloadedBgms demo_start = {''Title.mp3''}"
  "errorLogs demo_start = []"
  "events demo_start = [GetCatalog]"
  by (simp_all add: demo_start_def start_state_def prepareDirs_def project_def demo_catalog_def
        entry_def demo_env_def Let_def)

lemma demo_start_names:
  "getMarkFilename (items demo_start ! 0) = ''maple.png''"
  "getMarkFilename (items demo_start ! Suc 0) = ''maple.png''"
  "getBgmFilename (items demo_start ! 0) = ''Title.mp3''"
  "getBgmFilename (items demo_start ! Suc 0) = ''Floral.mp3''"
  "youtube (data (items demo_start ! Suc 0)) = ''xyz''"
  by (simp_all add: demo_start_eval getMarkFilename_def getBgmFilename_def to_output_def entry_def)

lemma demo_toDownloadList: "toDownloadList demo_start = [1]"
  by (simp add: toDownloadList_def outputData_def isMarkDownloaded_def isBgmDownloaded_def
        demo_start_names demo_start_eval(2,3) upt_rec [of 0] upt_rec [of 1] upt_rec [of 2]
        demo_start_eval(1) [THEN arg_cong, of length, simplified])

section \<open>The download stage: the claims\<close>

text \<open>
  Claim C2, amended. The download stage works on the items that miss their image or their
  track in the index taken before the loop, and for each of them it requests both the image
  and the track, in the order of the catalog; it requests nothing else. So an item with
  both assets present is skipped, and an asset that is present is fetched again when the
  other asset of its item is missing.
\<close>

theorem download_stage_fetches:
  "toDownloadList st
     = filter (\<lambda>r. \<not> (isMarkDownloaded st (items st ! r) \<and> isBgmDownloaded st (items st ! r)))
         [0..<length (items st)]
   \<and> fetches (download_stage env st)
       = fetches st
         @ concat (map (\<lambda>r. [GetMark (getMarkFilename (items st ! r)),
                              SaveBgm (youtube (data (items st ! r)))
                                (getBgmFilename (items st ! r))])
                     (filter (\<lambda>r. \<not> (isMarkDownloaded st (items st ! r)
                                        \<and> isBgmDownloaded st (items st ! r)))
                        [0..<length (items st)]))"
proof -
  have todo: "toDownloadList st
     = filter (\<lambda>r. \<not> (isMarkDownloaded st (items st ! r) \<and> isBgmDownloaded st (items st ! r)))
         [0..<length (items st)]"
    by (simp add: toDownloadList_def outputData_def)
  have "fetches (download_stage env st)
          = fetches st @ concat (map (fetch_pair st) (toDownloadList st))"
    by (simp add: download_stage_def download_loop_fetches)
  also have "fetch_pair st
               = (\<lambda>r. [GetMark (getMarkFilename (items st ! r)),
                        SaveBgm (youtube (data (items st ! r))) (getBgmFilename (items st ! r))])"
    by (rule ext) (simp add: fetch_pair_def)
  finally show ?thesis
    unfolding todo by simp
qed

theorem download_stage_fetches_witness:
  "fetches (download_stage demo_env demo_start)
     = [GetMark ''maple.png'', SaveBgm ''xyz'' ''Floral.mp3'']
   \<and> toDownloadList demo_start = [1]
   \<and> length (items demo_start) = 2
   \<and> isMarkDownloaded demo_start (items demo_start ! 0)
   \<and> isBgmDownloaded demo_start (items demo_start ! 0)
   \<and> isMarkDownloaded demo_start (items demo_start ! 1)
   \<and> \<not> isBgmDownloaded demo_start (items demo_start ! 1)"
proof -
  have none: "fetches demo_start = []"
    by (simp add: fetches_def demo_start_eval)
  have len: "length (items demo_start) = 2"
    by (simp add: demo_start_eval)
  have present: "isMarkDownloaded demo_start (items demo_start ! 0)"
    "isBgmDownloaded demo_start (items demo_start ! 0)"
    "isMarkDownloaded demo_start (items demo_start ! Suc 0)"
    "\<not> isBgmDownloaded demo_start (items demo_start ! Suc 0)"
    by (simp_all add: isMarkDownloaded_def isBgmDownloaded_def demo_start_names
          demo_start_eval(2,3))
  have todo: "filter (\<lambda>r. \<not> (isMarkDownloaded demo_start (items demo_start ! r)
                                \<and> isBgmDownloaded demo_start (items demo_start ! r)))
                [0..<length (items demo_start)] = [Suc 0]"
    by (simp add: len present numeral_2_eq_2)
  from download_stage_fetches [of demo_start demo_env]
  have "toDownloadList demo_start = [Suc 0]"
    and "fetches (download_stage demo_env demo_start)
           = [GetMark ''maple.png'', SaveBgm ''xyz'' ''Floral.mp3'']"
    unfolding todo by (simp_all add: none demo_start_names)
  then show ?thesis
    by (simp add: len present)
qed

theorem refetch_present_mark_counterexample:
  "getMarkFilename (items demo_start ! 1) = ''maple.png''
   \<and> ''maple.png'' \<in> downloadedMarks demo_start
   \<and> getBgmFilename (items demo_start ! 1) \<notin> downloadedBgms demo_start
   \<and> GetMark ''maple.png'' \<in> set (fetches (download_stage demo_env demo_start))"
proof -
  have "fetch_pair demo_start 1 = [GetMark ''maple.png'', SaveBgm ''xyz'' ''Floral.mp3'']"
    by (simp add: fetch_pair_def demo_start_names)
  then have "GetMark ''maple.png'' \<in> set (fetches (download_stage demo_env demo_start))"
    by (simp add: download_stage_def download_item_frame(4) demo_toDownloadList)
  then show ?thesis
    by (simp add: demo_start_names demo_start_eval(2,3))
qed

text \<open>
  Claim C3. When the download stage has run and every item finds its image and its track
  in the resulting index, a second run of the stage on the same items and that index has
  nothing to download: it leaves the state as it is and requests nothing.
\<close>

theorem download_stage_idempotent:
  assumes "st' = download_stage env st"
    and "\<forall>r < length (items st).
           getMarkFilename (items st ! r) \<in> downloadedMarks st'
           \<and> getBgmFilename (items st ! r) \<in> downloadedBgms st'"
    and "items st2 = items st"
    and "downloadedMarks st2 = downloadedMarks st'"
    and "downloadedBgms st2 = downloadedBgms st'"
  shows "toDownloadList st2 = []
         \<and> download_stage env2 st2 = st2
         \<and> fetches (download_stage env2 st2) = fetches st2"
proof -
  have "toDownloadList st2 = []"
    using assms(2-5) by (intro toDownloadList_empty) simp
  then show ?thesis
    by (simp add: download_stage_def)
qed

lemmas run_defs = start_state_def prepareDirs_def project_def to_output_def
  demo_catalog_def entry_def demo_env_def Let_def
  download_stage_def toDownloadList_def outputData_def isMarkDownloaded_def isBgmDownloaded_def
  getMarkFilename_def getBgmFilename_def download_item_def downloadMark_def downloadBgm_def

lemma online_first_run:
  "items online_start = items second_start"
  "length (items online_start) = 2"
  "getMarkFilename (items online_start ! 0) = ''maple.png''"
  "getMarkFilename (items online_start ! Suc 0) = ''maple.png''"
  "getBgmFilename (items online_start ! 0) = ''Title.mp3''"
  "getBgmFilename (items online_start ! Suc 0) = ''Floral.mp3''"
  "downloadedMarks (download_stage online_env online_start) = {''maple.png''}"
  "downloadedBgms (download_stage online_env online_start) = {''Floral.mp3'', ''Title.mp3''}"
  "downloadedMarks second_start = {''maple.png''}"
  "downloadedBgms second_start = {''Floral.mp3'', ''Title.mp3''}"
  "fetches second_start = []"
  by (simp_all add: online_start_def second_start_def online_env_def second_env_def run_defs
        fetches_def)

theorem download_stage_idempotent_witness:
  "download_stage online_env online_start = download_stage online_env online_start
   \<and> length (items online_start) = 2
   \<and> getMarkFilename (items online_start ! 0)
        \<in> downloadedMarks (download_stage online_env online_start)
   \<and> getBgmFilename (items online_start ! 0)
        \<in> downloadedBgms (download_stage online_env online_start)
   \<and> getMarkFilename (items online_start ! 1)
        \<in> downloadedMarks (download_stage online_env online_start)
   \<and> getBgmFilename (items online_start ! 1)
        \<in> downloadedBgms (download_stage online_env online_start)
   \<and> items second_start = items online_start
   \<and> downloadedMarks second_start = downloadedMarks (download_stage online_env online_start)
   \<and> downloadedBgms second_start = downloadedBgms (download_stage online_env online_start)
   \<and> toDownloadList second_start = []
   \<and> download_stage second_env second_start = second_start
   \<and> fetches (download_stage second_env second_start) = []"
proof -
  have present: "\<forall>r < length (items online_start).
          getMarkFilename (items online_start ! r)
            \<in> downloadedMarks (download_stage online_env online_start)
          \<and> getBgmFilename (items online_start ! r)
            \<in> downloadedBgms (download_stage online_env online_start)"
    by (simp add: online_first_run(2-8) less_Suc_eq numeral_2_eq_2)
  have same: "items second_start = items online_start"
    "downloadedMarks second_start = downloadedMarks (download_stage online_env online_start)"
    "downloadedBgms second_start = downloadedBgms (download_stage online_env online_start)"
    by (simp_all add: online_first_run)
  from download_stage_idempotent [OF refl present same, of second_env] same
  show ?thesis
    by (simp add: online_first_run(2-8,11))
qed

text \<open>
  Claim C6. An item worked on by the download stage whose image download is rejected while
  its track download is fulfilled: the file name of its track is in the index when the
  stage ends, and the records the stage appends for the item are one record of type mark
  and none of type bgm. The records of the stage are those of its items, each item once, in
  the order of the catalog.
\<close>

theorem mark_failure_isolated:
  assumes "r \<in> set (toDownloadList st)"
    and "mark_settled env r = Rejected reason"
    and "bgm_settled env r = Fulfilled"
  shows "getBgmFilename (items st ! r) \<in> downloadedBgms (download_stage env st)
         \<and> item_errors env st r
             = [\<lparr>type = TypeMark,
                 message = ''Failed to download mark for '' @ mark (data (items st ! r))
                           @ '': '' @ reason\<rparr>]
         \<and> errorLogs (download_stage env st)
             = errorLogs st @ concat (map (item_errors env st) (toDownloadList st))
         \<and> distinct (toDownloadList st)"
proof -
  have "getBgmFilename (items st ! r) \<in> downloadedBgms (download_stage env st)"
    unfolding download_stage_def using assms(1,3) by (rule download_loop_keeps_bgm)
  moreover have "distinct (toDownloadList st)"
    by (simp add: toDownloadList_def outputData_def)
  ultimately show ?thesis
    using assms(2,3) by (simp add: item_errors_def download_stage_def download_loop_errors)
qed

lemma no_image_run:
  "toDownloadList no_image_start = [Suc 0]"
  "mark_settled no_image_env (Suc 0) = Rejected ''503''"
  "bgm_settled no_image_env (Suc 0) = Fulfilled"
  "getBgmFilename (items no_image_start ! Suc 0) = ''Floral.mp3''"
  "mark (data (items no_image_start ! Suc 0)) = ''maple''"
  "errorLogs no_image_start = []"
  by (simp_all add: no_image_start_def no_image_env_def online_env_def run_defs
        mark_settled_def bgm_settled_def upt_rec [of 0] upt_rec [of 1] upt_rec [of 2])

theorem mark_failure_isolated_witness:
  "1 \<in> set (toDownloadList no_image_start)
   \<and> mark_settled no_image_env 1 = Rejected ''503''
   \<and> bgm_settled no_image_env 1 = Fulfilled
   \<and> ''Floral.mp3'' \<in> downloadedBgms (download_stage no_image_env no_image_start)
   \<and> errorLogs (download_stage no_image_env no_image_start)
       = [\<lparr>type = TypeMark, message = ''Failed to download mark for maple: 503''\<rparr>]"
proof -
  have todo: "1 \<in> set (toDownloadList no_image_start)"
    by (simp add: no_image_run(1))
  have settled: "mark_settled no_image_env 1 = Rejected ''503''"
    "bgm_settled no_image_env 1 = Fulfilled"
    by (simp_all add: no_image_run)
  from mark_failure_isolated [OF todo settled] todo
  show ?thesis
    by (simp add: no_image_run)
qed

section \<open>The duration stage\<close>

lemma chunkArray_total:
  assumes "0 < n"
  shows "\<exists>cs. chunkArray xs n = Some cs \<and> concat cs = xs"
  using chunkArray_loop_spec [OF assms, of 0 xs "[]"]
  by (auto simp: chunkArray_def)

lemma getBgmDuration_eq:
  "getBgmDuration env r = (case ffprobe env r of Inl err \<Rightarrow> Inl err | Inr d \<Rightarrow> Inr (probed env r))"
  by (simp add: getBgmDuration_def probed_def split: sum.splits option.splits)

lemma start_probes_frame:
  "items (foldl start_probe st rs) = items st"
  "final_writes (foldl start_probe st rs) = final_writes st"
  by (induction rs arbitrary: st) (simp_all add: start_probe_def final_writes_def)

lemma enrich_item_frame:
  "items (enrich_item env st r) = (items st)[r := (items st ! r)\<lparr>duration := probed env r\<rparr>]"
  "downloadedMarks (enrich_item env st r) = downloadedMarks st"
  "downloadedBgms (enrich_item env st r) = downloadedBgms st"
  "final_writes (enrich_item env st r) = final_writes st"
  by (simp_all add: enrich_item_def getBgmDuration_eq probed_def final_writes_def
        split: sum.splits option.splits)

lemma enrich_loop_length:
  "length (items (foldl (enrich_item env) st rs)) = length (items st)"
  by (induction rs arbitrary: st) (simp_all add: enrich_item_frame)

lemma enrich_loop_final_writes:
  "final_writes (foldl (enrich_item env) st rs) = final_writes st"
  by (induction rs arbitrary: st) (simp_all add: enrich_item_frame)

lemma enrich_loop_nth:
  assumes "k < length (items st)"
  shows "items (foldl (enrich_item env) st rs) ! k
           = (if k \<in> set rs then (items st ! k)\<lparr>duration := probed env k\<rparr> else items st ! k)"
  using assms
proof (induction rs arbitrary: st)
  case Nil
  then show ?case by simp
next
  case (Cons r rs)
  let ?st1 = "enrich_item env st r"
  from Cons.prems have k: "k < length (items ?st1)"
    by (simp add: enrich_item_frame)
  have step: "items ?st1 ! k = (if k = r then (items st ! k)\<lparr>duration := probed env k\<rparr>
                                else items st ! k)"
    using Cons.prems by (simp add: enrich_item_frame nth_list_update)
  from Cons.IH [OF k]
  have "items (foldl (enrich_item env) st (r # rs)) ! k
          = (if k \<in> set rs
             then (if k = r then (items st ! k)\<lparr>duration := probed env k\<rparr>
                   else items st ! k)\<lparr>duration := probed env k\<rparr>
             else (if k = r then (items st ! k)\<lparr>duration := probed env k\<rparr>
                   else items st ! k))"
    by (simp only: step foldl_Cons)
  then show ?case
    by auto
qed

text \<open>Whatever the order in which the probes call back, each item of the batch is served.\<close>

lemma completion_order_set: "set (completion_order env batch) = set batch"
proof (cases "sort (probe_order env batch) = sort batch")
  case True
  then have "set (probe_order env batch) = set batch"
    by (metis set_sort)
  with True show ?thesis
    by (simp add: completion_order_def)
next
  case False
  then show ?thesis
    by (simp add: completion_order_def)
qed

lemma enrich_batch_frame:
  "length (items (enrich_batch env st batch)) = length (items st)"
  "final_writes (enrich_batch env st batch) = final_writes st"
  by (simp_all add: enrich_batch_def enrich_loop_length enrich_loop_final_writes
        start_probes_frame)

lemma enrich_batch_nth:
  assumes "k < length (items st)"
  shows "items (enrich_batch env st batch) ! k
           = (if k \<in> set batch then (items st ! k)\<lparr>duration := probed env k\<rparr>
              else items st ! k)"
  using assms
  by (simp add: enrich_batch_def enrich_loop_nth start_probes_frame completion_order_set)

lemma duration_loop_frame:
  "length (items (foldl (enrich_batch env) st batches)) = length (items st)"
  "final_writes (foldl (enrich_batch env) st batches) = final_writes st"
  by (induction batches arbitrary: st) (simp_all add: enrich_batch_frame)

lemma duration_loop_nth:
  assumes "k < length (items st)"
  shows "items (foldl (enrich_batch env) st batches) ! k
           = (if k \<in> set (concat batches) then (items st ! k)\<lparr>duration := probed env k\<rparr>
              else items st ! k)"
  using assms
proof (induction batches arbitrary: st)
  case Nil
  then show ?case by simp
next
  case (Cons batch rest)
  let ?st1 = "enrich_batch env st batch"
  from Cons.prems have k: "k < length (items ?st1)"
    by (simp add: enrich_batch_frame)
  have step: "items ?st1 ! k = (if k \<in> set batch then (items st ! k)\<lparr>duration := probed env k\<rparr>
                                else items st ! k)"
    using Cons.prems by (rule enrich_batch_nth)
  from Cons.IH [OF k]
  have "items (foldl (enrich_batch env) st (batch # rest)) ! k
          = (if k \<in> set (concat rest)
             then (if k \<in> set batch then (items st ! k)\<lparr>duration := probed env k\<rparr>
                   else items st ! k)\<lparr>duration := probed env k\<rparr>
             else (if k \<in> set batch then (items st ! k)\<lparr>duration := probed env k\<rparr>
                   else items st ! k))"
    by (simp only: step foldl_Cons)
  then show ?case
    by auto
qed

lemma duration_stage_items:
  "\<exists>st'. duration_stage env st = Some st'
        \<and> items st' = map (\<lambda>r. (items st ! r)\<lparr>duration := probed env r\<rparr>) [0..<length (items st)]
        \<and> final_writes st' = final_writes st"
proof -
  obtain cs where cs: "chunkArray (outputData st) 50 = Some cs" "concat cs = outputData st"
    using chunkArray_total [of 50 "outputData st"] by auto
  let ?st' = "foldl (enrich_batch env) st cs"
  have "items ?st' = map (\<lambda>r. (items st ! r)\<lparr>duration := probed env r\<rparr>) [0..<length (items st)]"
  proof (rule nth_equalityI)
    show "length (items ?st')
            = length (map (\<lambda>r. (items st ! r)\<lparr>duration := probed env r\<rparr>) [0..<length (items st)])"
      by (simp add: duration_loop_frame)
  next
    fix k
    assume "k < length (items ?st')"
    then have k: "k < length (items st)"
      by (simp add: duration_loop_frame)
    then show "items ?st' ! k
                 = map (\<lambda>r. (items st ! r)\<lparr>duration := probed env r\<rparr>) [0..<length (items st)] ! k"
      by (simp add: duration_loop_nth cs(2) outputData_def)
  qed
  then show ?thesis
    by (simp add: duration_stage_def cs(1) duration_loop_frame)
qed

lemma download_stage_items: "items (download_stage env st) = items st"
  by (simp add: download_stage_def download_loop_frame)

text \<open>
  What the stage does for every item: it returns, it changes nothing of an item but its
  duration, and the duration is 0 when the probe fails or the library hands over nothing
  or a falsy value, and the value of the library as it is otherwise. So the duration is a
  number whenever the library does not hand over a string.
\<close>

lemma duration_stage_stores:
  "\<exists>st'. duration_stage env st = Some st'
     \<and> length (items st') = length (items st)
     \<and> (\<forall>r < length (items st).
           items st' ! r = (items st ! r)\<lparr>duration := duration (items st' ! r)\<rparr>
           \<and> (\<forall>err. ffprobe env r = Inl err \<longrightarrow> duration (items st' ! r) = JNumber (Num 0))
           \<and> (ffprobe env r = Inr None \<longrightarrow> duration (items st' ! r) = JNumber (Num 0))
           \<and> (\<forall>d. ffprobe env r = Inr (Some d)
                \<longrightarrow> duration (items st' ! r) = (if truthy_value d then d else JNumber (Num 0)))
           \<and> ((\<forall>s. ffprobe env r \<noteq> Inr (Some (JString s)))
                \<longrightarrow> is_number (duration (items st' ! r))))"
proof -
  obtain st' where run: "duration_stage env st = Some st'"
    and its: "items st' = map (\<lambda>r. (items st ! r)\<lparr>duration := probed env r\<rparr>) [0..<length (items st)]"
    using duration_stage_items by blast
  have "is_number (probed env r)" if "\<forall>s. ffprobe env r \<noteq> Inr (Some (JString s))" for r
  proof (cases "ffprobe env r")
    case (Inl err)
    then show ?thesis by (simp add: probed_def)
  next
    case (Inr handed)
    show ?thesis
    proof (cases handed)
      case None
      with Inr show ?thesis by (simp add: probed_def)
    next
      case (Some d)
      with Inr that show ?thesis
        by (cases d) (simp_all add: probed_def)
    qed
  qed
  then show ?thesis
    using run its by (auto simp: probed_def)
qed

text \<open>
  Claim C5 does not hold of the code. The item is declared with a duration that is a
  number, and the code gives 0 to an item whose probe fails; but when the probe's output
  has \<open>N/A\<close> for the duration, the library hands over this text, the text is truthy, and
  the stage stores it: the duration of the item is then a string, not a number that is not
  negative.
\<close>

theorem unknown_duration_stored:
  "map_option durations
     (duration_stage unknown_duration_env
        (download_stage unknown_duration_env unknown_duration_start))
     = Some [JString ''N/A'', JString ''N/A'']
   \<and> \<not> is_number (JString ''N/A'')
   \<and> \<not> non_negative_number (JString ''N/A'')"
proof -
  have its: "items unknown_duration_start = [to_output (entry ''Title'' ''maple'' ''abc''),
                                              to_output (entry ''Floral'' ''maple'' ''xyz'')]"
    by (simp add: unknown_duration_start_def start_state_def prepareDirs_def project_def
          demo_catalog_def entry_def Let_def)
  have probe: "probed unknown_duration_env r = JString ''N/A''" for r
    by (simp add: probed_def unknown_duration_env_def online_env_def demo_env_def)
  obtain st' where
    run: "duration_stage unknown_duration_env
            (download_stage unknown_duration_env unknown_duration_start) = Some st'" and
    "items st' = map (\<lambda>r. (items (download_stage unknown_duration_env unknown_duration_start) ! r)
                              \<lparr>duration := probed unknown_duration_env r\<rparr>)
                   [0..<length (items (download_stage unknown_duration_env unknown_duration_start))]"
    using duration_stage_items by blast
  then have "durations st' = [JString ''N/A'', JString ''N/A'']"
    by (simp add: durations_def download_stage_items its probe upt_rec [of 0] upt_rec [of 1]
          upt_rec [of 2] comp_def)
  with run show ?thesis
    by simp
qed

section \<open>The third stage and the final writes\<close>

lemma download_final_writes:
  "final_writes (snd (downloadMark env r st)) = final_writes st"
  "final_writes (snd (downloadBgm env r st)) = final_writes st"
  by (simp_all add: downloadMark_def downloadBgm_def Let_def final_writes_def
        split: sum.splits option.splits)

lemma download_item_final_writes: "final_writes (download_item env st r) = final_writes st"
  by (simp add: download_item_eq final_writes_def download_final_writes [unfolded final_writes_def])

lemma download_stage_final_writes: "final_writes (download_stage env st) = final_writes st"
proof -
  have "final_writes (foldl (download_item env) st rs) = final_writes st" for rs
    by (induction rs arbitrary: st) (simp_all add: download_item_final_writes)
  then show ?thesis
    by (simp add: download_stage_def)
qed

lemma encode_item_state:
  "fst (encode_item env (st, m, thrown) r)
     = st\<lparr>events := events st @ [ReadFile (MarkFile (getMarkFilename (items st ! r)))]\<rparr>"
  by (simp add: encode_item_def Let_def split: sum.splits)

lemma encode_item_thrown:
  "\<exists>extra. snd (snd (encode_item env (st, m, thrown) r)) = thrown @ extra
          \<and> (\<forall>e \<in> set extra. is_encode_error e)
          \<and> (\<forall>err. readFileSync env r = Inl err \<longrightarrow> extra \<noteq> [])"
  by (cases "readFileSync env r") (simp_all add: encode_item_def Let_def)

lemma encode_loop_state:
  "items (fst (foldl (encode_item env) acc rs)) = items (fst acc)
   \<and> errorLogs (fst (foldl (encode_item env) acc rs)) = errorLogs (fst acc)
   \<and> final_writes (fst (foldl (encode_item env) acc rs)) = final_writes (fst acc)"
proof (induction rs arbitrary: acc)
  case Nil
  show ?case by simp
next
  case (Cons r rs)
  obtain st m thrown where acc: "acc = (st, m, thrown)"
    by (cases acc)
  show ?case
    using Cons.IH [of "encode_item env acc r"]
    by (simp add: acc encode_item_state final_writes_def)
qed

lemma encode_loop_thrown:
  "\<exists>extra. snd (snd (foldl (encode_item env) acc rs)) = snd (snd acc) @ extra
          \<and> (\<forall>e \<in> set extra. is_encode_error e)
          \<and> (\<forall>r \<in> set rs. \<forall>err. readFileSync env r = Inl err \<longrightarrow> extra \<noteq> [])"
proof (induction rs arbitrary: acc)
  case Nil
  show ?case by simp
next
  case (Cons r rs)
  obtain st m thrown where acc: "acc = (st, m, thrown)"
    by (cases acc)
  obtain x where
    x: "snd (snd (encode_item env acc r)) = thrown @ x" "\<forall>e \<in> set x. is_encode_error e"
       "\<forall>err. readFileSync env r = Inl err \<longrightarrow> x \<noteq> []"
    using encode_item_thrown [of env st m thrown r] unfolding acc by blast
  obtain y where
    y: "snd (snd (foldl (encode_item env) (encode_item env acc r) rs))
          = snd (snd (encode_item env acc r)) @ y"
       "\<forall>e \<in> set y. is_encode_error e"
       "\<forall>r \<in> set rs. \<forall>err. readFileSync env r = Inl err \<longrightarrow> y \<noteq> []"
    using Cons.IH [of "encode_item env acc r"] by blast
  have "snd (snd (foldl (encode_item env) acc (r # rs))) = snd (snd acc) @ (x @ y)"
    using x(1) y(1) by (simp add: acc)
  moreover have "\<forall>e \<in> set (x @ y). is_encode_error e"
    using x(2) y(2) by auto
  moreover have "\<forall>q \<in> set (r # rs). \<forall>err. readFileSync env q = Inl err \<longrightarrow> x @ y \<noteq> []"
    using x(3) y(3) by auto
  ultimately show ?case
    by blast
qed

lemma encode_batches_state:
  "items (fst (encode_batches env batches st m)) = items st
   \<and> errorLogs (fst (encode_batches env batches st m)) = errorLogs st
   \<and> final_writes (fst (encode_batches env batches st m)) = final_writes st"
proof (induction batches arbitrary: st m)
  case Nil
  show ?case by simp
next
  case (Cons batch rest)
  obtain st' m' thrown where run: "foldl (encode_item env) (st, m, []) batch = (st', m', thrown)"
    by (cases "foldl (encode_item env) (st, m, []) batch")
  have frame: "items st' = items st" "errorLogs st' = errorLogs st"
    "final_writes st' = final_writes st"
    using encode_loop_state [of env "(st, m, [])" batch] by (simp_all add: run)
  show ?case
    using Cons.IH [of st' m'] frame by (cases thrown) (simp_all add: run)
qed

lemma encode_batches_error:
  "snd (encode_batches env batches st m) = Inl e \<Longrightarrow> is_encode_error e"
proof (induction batches arbitrary: st m)
  case Nil
  then show ?case by simp
next
  case (Cons batch rest)
  obtain st' m' thrown where run: "foldl (encode_item env) (st, m, []) batch = (st', m', thrown)"
    by (cases "foldl (encode_item env) (st, m, []) batch")
  have "\<forall>e \<in> set thrown. is_encode_error e"
    using encode_loop_thrown [of env "(st, m, [])" batch] by (auto simp: run)
  with Cons show ?case
    by (cases thrown) (auto simp: run)
qed

lemma encode_batches_unreadable:
  assumes "r \<in> set (concat batches)" and "readFileSync env r = Inl err"
  shows "\<exists>e. snd (encode_batches env batches st m) = Inl e"
  using assms(1)
proof (induction batches arbitrary: st m)
  case Nil
  then show ?case by simp
next
  case (Cons batch rest)
  obtain st' m' thrown where run: "foldl (encode_item env) (st, m, []) batch = (st', m', thrown)"
    by (cases "foldl (encode_item env) (st, m, []) batch")
  show ?case
  proof (cases thrown)
    case (Cons e es)
    then show ?thesis by (simp add: run)
  next
    case Nil
    have "r \<notin> set batch"
    proof
      assume "r \<in> set batch"
      with assms(2) have "thrown \<noteq> []"
        using encode_loop_thrown [of env "(st, m, [])" batch] by (auto simp: run)
      with Nil show False by simp
    qed
    with Cons.prems have "r \<in> set (concat rest)" by simp
    from Cons.IH [OF this, of st' m'] Nil show ?thesis
      by (simp add: run)
  qed
qed

lemma encode_stage_total:
  "\<exists>st' res. encode_stage env st = Some (st', res)
     \<and> items st' = items st \<and> errorLogs st' = errorLogs st \<and> final_writes st' = final_writes st
     \<and> (\<forall>e. res = Inl e \<longrightarrow> is_encode_error e)
     \<and> ((\<exists>r < length (items st). \<exists>err. readFileSync env r = Inl err) \<longrightarrow> (\<exists>e. res = Inl e))"
proof -
  obtain cs where cs: "chunkArray (outputData st) 50 = Some cs" "concat cs = outputData st"
    using chunkArray_total [of 50 "outputData st"] by auto
  let ?run = "encode_batches env cs st Map.empty"
  have "encode_stage env st = Some (fst ?run, snd ?run)"
    by (simp add: encode_stage_def cs)
  moreover have "\<exists>e. snd ?run = Inl e" if "r < length (items st)" "readFileSync env r = Inl err" for r err
    using that encode_batches_unreadable [of r cs env err st Map.empty]
    by (simp add: cs outputData_def)
  ultimately show ?thesis
    using encode_batches_state [of env cs st Map.empty] encode_batches_error [of env cs st Map.empty]
    by blast
qed

lemma write_outputs_state:
  "items (snd (write_outputs env st m)) = items st"
  "errorLogs (snd (write_outputs env st m)) = errorLogs st"
  by (simp_all add: write_outputs_def Let_def split: option.splits)

lemma write_outputs_manifest:
  assumes "fst (write_outputs env st m) = Inr mf"
  shows "bgms mf = items st"
    and "final_writes (snd (write_outputs env st m))
           = final_writes st
             @ (if errorLogs st = [] then [] else [WriteFile (ErrorLogFile (now_errorLog env))])
             @ [WriteFile DataJson]"
    and "errorLogs st \<noteq> [] \<longrightarrow> writeFile_errorLog env = None"
    and "writeFile_data env = None"
  using assms
  by (auto simp: write_outputs_def Let_def final_writes_def outputData_def map_nth
        split: option.splits if_splits)

lemma write_outputs_log_refused:
  assumes "errorLogs st \<noteq> []" and "writeFile_errorLog env = Some reason"
  shows "write_outputs env st m
           = (Inl (WriteError reason),
              st\<lparr>events := events st @ [WriteFile (ErrorLogFile (now_errorLog env))]\<rparr>)"
  using assms by (simp add: write_outputs_def Let_def)

lemma write_outputs_no_manifest:
  assumes "fst (write_outputs env st m) = Inl e"
  shows "\<exists>reason. e = WriteError reason"
    and "errorLogs st \<noteq> [] \<and> writeFile_errorLog env \<noteq> None
         \<longrightarrow> final_writes (snd (write_outputs env st m))
               = final_writes st @ [WriteFile (ErrorLogFile (now_errorLog env))]"
  using assms
  by (auto simp: write_outputs_def Let_def final_writes_def split: option.splits if_splits)

section \<open>Runs of \<open>main\<close>\<close>

lemma final_writes_start: "final_writes (start_state env catalog) = []"
  by (simp add: start_state_def prepareDirs_def final_writes_def Let_def)

lemma download_and_probe_total:
  "\<exists>st. download_and_probe env catalog = Some st
     \<and> items st = map (\<lambda>r. (project catalog ! r)\<lparr>duration := probed env r\<rparr>)
                     [0..<length (project catalog)]
     \<and> final_writes st = []"
proof -
  have "items (download_stage env (start_state env catalog)) = project catalog"
    by (simp add: download_stage_items start_state_def Let_def)
  moreover have "final_writes (download_stage env (start_state env catalog)) = []"
    by (simp add: download_stage_final_writes final_writes_start)
  ultimately show ?thesis
    using duration_stage_items [of env "download_stage env (start_state env catalog)"]
    by (simp add: download_and_probe_def)
qed

lemma main_cases:
  assumes "main env = Some (result, st)"
  obtains
    (no_catalog) reason where "ofetch_catalog env = Inl reason"
      "result = Inl (CatalogUnavailable reason)"
      "st = (prepareDirs env)\<lparr>events := events (prepareDirs env) @ [GetCatalog]\<rparr>"
  | (encode_failed) catalog st3 e where "ofetch_catalog env = Inr catalog"
      "download_and_probe env catalog = Some st3"
      "encode_stage env st3 = Some (st, Inl e)" "result = Inl e"
  | (written) catalog st3 st4 m where "ofetch_catalog env = Inr catalog"
      "download_and_probe env catalog = Some st3"
      "encode_stage env st3 = Some (st4, Inr m)" "write_outputs env st4 m = (result, st)"
  using assms
  by (auto simp: main_def split: sum.splits option.splits prod.splits)

lemma manifest_in_final_writes:
  "WriteFile DataJson \<in> set (events st) \<longleftrightarrow> WriteFile DataJson \<in> set (final_writes st)"
  by (simp add: final_writes_def)

lemma chunkArray_single:
  assumes "xs \<noteq> []" and "int (length xs) \<le> n"
  shows "chunkArray xs n = Some [xs]"
proof -
  from assms have pos: "0 < n" by (cases xs) auto
  have "slice xs 0 (0 + n) = take (nat n) (drop (nat 0) xs)"
    using pos by (intro slice_chunk) simp_all
  with assms have "slice xs 0 n = xs" by simp
  moreover have "chunkArray_loop xs n n [xs] = Some [xs]"
    using assms by (subst chunkArray_loop.simps) simp
  ultimately show ?thesis
    using assms unfolding chunkArray_def
    by (subst chunkArray_loop.simps) simp
qed

lemmas stage_defs = main_def download_and_probe_def duration_stage_def enrich_batch_def
  start_probe_def completion_order_def enrich_item_def getBgmDuration_def encode_stage_def
  encode_item_def write_outputs_def

lemma demo_run:
  "\<exists>m st. main demo_env = Some (Inr m, st)
     \<and> errorLogs st = [\<lparr>type = TypeBgm, message = ''Failed to download BGM for maple: unavailable''\<rparr>,
                        \<lparr>type = TypeBgm, message = ''Failed to get duration for Floral: ENOENT''\<rparr>]
     \<and> length (bgms m) = 2"
  by (simp add: stage_defs run_defs chunkArray_single)

text \<open>
  Claim C1, amended. The error log is written before the manifest, not after it: a run
  that writes the manifest has written the error log just before when the error list is
  not empty, and has written no error log otherwise. The write of the error log is
  awaited, so when it fails the run ends there and the manifest is not written.
\<close>

theorem error_log_written_before_manifest:
  assumes "main env = Some (result, st)"
  shows "(\<forall>m. result = Inr m \<longrightarrow>
            final_writes st
              = (if errorLogs st = [] then [] else [WriteFile (ErrorLogFile (now_errorLog env))])
                @ [WriteFile DataJson])
         \<and> (\<forall>reason. errorLogs st \<noteq> [] \<and> writeFile_errorLog env = Some reason \<longrightarrow>
               (\<forall>m. result \<noteq> Inr m) \<and> WriteFile DataJson \<notin> set (events st))"
  using assms
proof (cases rule: main_cases)
  case (no_catalog reason)
  then show ?thesis
    by (simp add: prepareDirs_def)
next
  case (encode_failed catalog st3 e)
  obtain st' res where "encode_stage env st3 = Some (st', res)" "final_writes st' = final_writes st3"
    using encode_stage_total [of env st3] by blast
  moreover have "final_writes st3 = []"
    using download_and_probe_total [of env catalog] encode_failed(2) by auto
  ultimately have "final_writes st = []"
    using encode_failed(3) by simp
  with encode_failed(4) show ?thesis
    by (simp add: manifest_in_final_writes)
next
  case (written catalog st3 st4 m)
  obtain st' res where "encode_stage env st3 = Some (st', res)" "final_writes st' = final_writes st3"
    using encode_stage_total [of env st3] by blast
  moreover have "final_writes st3 = []"
    using download_and_probe_total [of env catalog] written(2) by auto
  ultimately have clean: "final_writes st4 = []"
    using written(3) by simp
  have logs: "errorLogs st = errorLogs st4"
    using write_outputs_state(2) [of env st4 m] by (simp add: written(4))
  have first: "\<forall>mf. result = Inr mf \<longrightarrow>
            final_writes st
              = (if errorLogs st = [] then [] else [WriteFile (ErrorLogFile (now_errorLog env))])
                @ [WriteFile DataJson]"
    using write_outputs_manifest(2) [of env st4 m] by (simp add: written(4) clean logs)
  have second: "(\<forall>mf. result \<noteq> Inr mf) \<and> WriteFile DataJson \<notin> set (events st)"
    if "errorLogs st \<noteq> []" "writeFile_errorLog env = Some reason" for reason
  proof -
    from that have "write_outputs env st4 m
           = (Inl (WriteError reason),
              st4\<lparr>events := events st4 @ [WriteFile (ErrorLogFile (now_errorLog env))]\<rparr>)"
      by (intro write_outputs_log_refused) (simp_all add: logs)
    with written(4) have "result = Inl (WriteError reason)"
      "final_writes st = final_writes st4 @ [WriteFile (ErrorLogFile (now_errorLog env))]"
      by (auto simp: final_writes_def)
    then show ?thesis
      by (simp add: manifest_in_final_writes clean)
  qed
  from first second show ?thesis
    by blast
qed

theorem error_log_written_before_manifest_witness:
  "\<exists>m st. main demo_env = Some (Inr m, st)
     \<and> final_writes st = [WriteFile (ErrorLogFile 1000), WriteFile DataJson]"
proof -
  obtain m st where run: "main demo_env = Some (Inr m, st)" and "errorLogs st \<noteq> []"
    using demo_run by auto
  with error_log_written_before_manifest [OF run]
  have "final_writes st = [WriteFile (ErrorLogFile 1000), WriteFile DataJson]"
    by (simp add: demo_env_def)
  with run show ?thesis
    by blast
qed

theorem error_log_first_counterexample:
  "map_option (final_writes \<circ> snd) (main demo_env)
     = Some [WriteFile (ErrorLogFile 1000), WriteFile DataJson]
   \<and> map_option fst (main log_refused_env) = Some (Inl (WriteError ''EACCES''))
   \<and> map_option (final_writes \<circ> snd) (main log_refused_env)
       = Some [WriteFile (ErrorLogFile 1000)]"
  by (simp add: stage_defs run_defs chunkArray_single log_refused_env_def final_writes_def)

text \<open>
  Claim C7. When the image of some item cannot be read, the run ends in the third stage
  with the exception of that stage: the error list is the one the second stage left, and
  neither the error log nor the manifest is written.
\<close>

theorem unreadable_mark_is_fatal:
  assumes "ofetch_catalog env = Inr catalog"
    and "r < length (project catalog)"
    and "readFileSync env r = Inl err"
  shows "\<exists>e st st3. main env = Some (Inl e, st)
           \<and> is_encode_error e
           \<and> download_and_probe env catalog = Some st3
           \<and> errorLogs st = errorLogs st3
           \<and> final_writes st = []"
proof -
  obtain st3 where probe: "download_and_probe env catalog = Some st3"
    and len: "length (items st3) = length (project catalog)"
    and clean: "final_writes st3 = []"
    using download_and_probe_total [of env catalog] by auto
  obtain st res where enc: "encode_stage env st3 = Some (st, res)"
    and frame: "errorLogs st = errorLogs st3" "final_writes st = final_writes st3"
    and err: "\<forall>e. res = Inl e \<longrightarrow> is_encode_error e"
    and fails: "(\<exists>r < length (items st3). \<exists>err. readFileSync env r = Inl err) \<longrightarrow> (\<exists>e. res = Inl e)"
    using encode_stage_total [of env st3] by blast
  from fails assms(2,3) len obtain e where res: "res = Inl e"
    by auto
  have "main env = Some (Inl e, st)"
    by (simp add: main_def assms(1) probe enc res)
  with err res probe frame clean show ?thesis
    by auto
qed

theorem unreadable_mark_is_fatal_witness:
  "ofetch_catalog unreadable_env = Inr demo_catalog
   \<and> 1 < length (project demo_catalog)
   \<and> readFileSync unreadable_env 1 = Inl ''ENOENT''
   \<and> map_option fst (main unreadable_env) = Some (Inl (ReadError ''ENOENT''))
   \<and> (\<exists>e st st3. main unreadable_env = Some (Inl e, st)
           \<and> is_encode_error e
           \<and> download_and_probe unreadable_env demo_catalog = Some st3
           \<and> errorLogs st = errorLogs st3
           \<and> final_writes st = [])"
proof -
  have cat: "ofetch_catalog unreadable_env = Inr demo_catalog"
    by (simp add: unreadable_env_def demo_env_def)
  have pos: "1 < length (project demo_catalog)"
    by (simp add: project_def demo_catalog_def entry_def)
  have unreadable: "readFileSync unreadable_env 1 = Inl ''ENOENT''"
    by (simp add: unreadable_env_def)
  have "map_option fst (main unreadable_env) = Some (Inl (ReadError ''ENOENT''))"
    by (simp add: stage_defs run_defs chunkArray_single unreadable_env_def)
  with unreadable_mark_is_fatal [OF cat pos unreadable] cat pos unreadable
  show ?thesis
    by blast
qed

text \<open>
  Claim C8. The projection makes one item for each catalog entry with a source and none
  for the others, and an entry without a source leaves no trace: no error is recorded, and
  the run proceeds as on the catalog without these entries. The manifest of a run that
  writes one lists as many items as the catalog has entries with a source; for three
  entries, one of them without a source, these are two.
\<close>

theorem catalog_projection:
  "length (project catalog)
     = length catalog - length (filter (\<lambda>item. youtube item = []) catalog)
   \<and> map data (project catalog) = filter (\<lambda>item. youtube item \<noteq> []) catalog
   \<and> errorLogs (start_state env catalog) = []
   \<and> download_and_probe env catalog
       = download_and_probe env (filter (\<lambda>item. youtube item \<noteq> []) catalog)
   \<and> (\<forall>m st. ofetch_catalog env = Inr catalog \<and> main env = Some (Inr m, st) \<longrightarrow>
         length (bgms m)
           = length catalog - length (filter (\<lambda>item. youtube item = []) catalog))
   \<and> (length catalog = 3 \<and> length (filter (\<lambda>item. youtube item = []) catalog) = 1 \<longrightarrow>
         length (project catalog) = 2
         \<and> (\<forall>m st. ofetch_catalog env = Inr catalog \<and> main env = Some (Inr m, st) \<longrightarrow>
               length (bgms m) = 2))"
proof -
  have "length (filter (\<lambda>item. youtube item \<noteq> []) catalog)
          + length (filter (\<lambda>item. youtube item = []) catalog) = length catalog"
    using sum_length_filter_compl [of "\<lambda>item. youtube item \<noteq> []" catalog] by simp
  then have count: "length (project catalog)
     = length catalog - length (filter (\<lambda>item. youtube item = []) catalog)"
    by (simp add: project_def)
  have same: "project (filter (\<lambda>item. youtube item \<noteq> []) catalog) = project catalog"
    by (simp add: project_def)
  have manifest: "length (bgms m) = length (project catalog)"
    if "ofetch_catalog env = Inr catalog" "main env = Some (Inr m, st)" for m st
    using that(2)
  proof (cases rule: main_cases)
    case (written catalog' st3 st4 marks')
    with that(1) have probe: "download_and_probe env catalog = Some st3"
      by simp
    have "length (items st3) = length (project catalog)"
      using download_and_probe_total [of env catalog] probe by auto
    moreover have "items st4 = items st3"
      using encode_stage_total [of env st3] written(3) by auto
    moreover have "bgms m = items st4"
      using write_outputs_manifest(1) [of env st4 marks' m] written(4) by simp
    ultimately show ?thesis
      by simp
  qed simp_all
  have "errorLogs (start_state env catalog) = []"
    by (simp add: start_state_def prepareDirs_def Let_def)
  moreover have "map data (project catalog) = filter (\<lambda>item. youtube item \<noteq> []) catalog"
    by (simp add: project_def to_output_def comp_def)
  moreover have "download_and_probe env catalog
       = download_and_probe env (filter (\<lambda>item. youtube item \<noteq> []) catalog)"
    by (simp add: download_and_probe_def start_state_def same)
  ultimately show ?thesis
    using count manifest by auto
qed

theorem catalog_projection_witness:
  "length demo_catalog = 3
   \<and> length (filter (\<lambda>item. youtube item = []) demo_catalog) = 1
   \<and> ofetch_catalog demo_env = Inr demo_catalog
   \<and> length (project demo_catalog) = 2
   \<and> (\<exists>m st. main demo_env = Some (Inr m, st) \<and> length (bgms m) = 2)"
proof -
  have three: "length demo_catalog = 3"
    and one: "length (filter (\<lambda>item. youtube item = []) demo_catalog) = 1"
    and cat: "ofetch_catalog demo_env = Inr demo_catalog"
    by (simp_all add: demo_catalog_def entry_def demo_env_def)
  obtain m st where run: "main demo_env = Some (Inr m, st)"
    using demo_run by auto
  from catalog_projection [of demo_catalog demo_env] three one cat run
  have "length (project demo_catalog) = 2" "length (bgms m) = 2"
    by auto
  with three one cat run show ?thesis
    by blast
qed

text \<open>
  Claim C9. The items of the manifest are the entries of the fetched catalog that have a
  source, in the order of the catalog: each item is the projection of its entry with the
  duration the second stage gave it.
\<close>

theorem manifest_keeps_catalog_order:
  assumes "ofetch_catalog env = Inr catalog"
    and "main env = Some (Inr m, st)"
  shows "map data (bgms m) = filter (\<lambda>item. youtube item \<noteq> []) catalog
         \<and> length (bgms m) = length (project catalog)
         \<and> (\<forall>k < length (bgms m).
               bgms m ! k = (project catalog ! k)\<lparr>duration := duration (bgms m ! k)\<rparr>)"
  using assms(2)
proof (cases rule: main_cases)
  case (written catalog' st3 st4 marks')
  with assms(1) have probe: "download_and_probe env catalog = Some st3"
    by simp
  have "items st3 = map (\<lambda>r. (project catalog ! r)\<lparr>duration := probed env r\<rparr>)
                     [0..<length (project catalog)]"
    using download_and_probe_total [of env catalog] probe by auto
  moreover have "items st4 = items st3"
    using encode_stage_total [of env st3] written(3) by auto
  moreover have "bgms m = items st4"
    using write_outputs_manifest(1) [of env st4 marks' m] written(4) by simp
  ultimately have its: "bgms m = map (\<lambda>r. (project catalog ! r)\<lparr>duration := probed env r\<rparr>)
                     [0..<length (project catalog)]"
    by simp
  have "map data (bgms m) = map data (project catalog)"
    unfolding its by (rule nth_equalityI) simp_all
  also have "\<dots> = filter (\<lambda>item. youtube item \<noteq> []) catalog"
    by (simp add: project_def to_output_def comp_def)
  finally show ?thesis
    by (simp add: its)
qed simp_all

theorem manifest_keeps_catalog_order_witness:
  "ofetch_catalog demo_env = Inr demo_catalog
   \<and> (\<exists>m st. main demo_env = Some (Inr m, st)
         \<and> map data (bgms m) = [entry ''Title'' ''maple'' ''abc'', entry ''Floral'' ''maple'' ''xyz''])"
proof -
  have cat: "ofetch_catalog demo_env = Inr demo_catalog"
    by (simp add: demo_env_def)
  obtain m st where run: "main demo_env = Some (Inr m, st)"
    using demo_run by auto
  from manifest_keeps_catalog_order [OF cat run]
  have "map data (bgms m) = [entry ''Title'' ''maple'' ''abc'', entry ''Floral'' ''maple'' ''xyz'']"
    by (simp add: demo_catalog_def entry_def)
  with run have "\<exists>m st. main demo_env = Some (Inr m, st)
         \<and> map data (bgms m) = [entry ''Title'' ''maple'' ''abc'', entry ''Floral'' ''maple'' ''xyz'']"
    by (intro exI conjI)
  with cat show ?thesis
    by (rule conjI)
qed


end
